theory Spec2Isabelle
  imports Complex_Main
begin

section \<open>Numeric values\<close>

text \<open>
  The pipeline of \<^verbatim>\<open>analysis.py\<close> computes with numpy's 64-bit floats. They are
  idealised here as real numbers, with one extra value for numpy's \<^verbatim>\<open>nan\<close>, which
  the source does produce on degenerate inputs (the mean of an empty array, the square
  root of a negative number): \<open>None\<close> stands for \<^verbatim>\<open>nan\<close>, \<open>Some x\<close> for the number
  \<open>x\<close>. Rounding, overflow, underflow and the infinities are outside the model.
  Arithmetic on such values propagates \<^verbatim>\<open>nan\<close>, as numpy's does.
\<close>

type_synonym npfloat = "real option"

definition lift1 :: "(real \<Rightarrow> real) \<Rightarrow> npfloat \<Rightarrow> npfloat" where
  "lift1 f a = (case a of None \<Rightarrow> None | Some x \<Rightarrow> Some (f x))"

definition lift2 :: "(real \<Rightarrow> real \<Rightarrow> real) \<Rightarrow> npfloat \<Rightarrow> npfloat \<Rightarrow> npfloat" where
  "lift2 f a b =
     (case a of None \<Rightarrow> None
      | Some x \<Rightarrow> (case b of None \<Rightarrow> None | Some y \<Rightarrow> Some (f x y)))"

text \<open>\<^verbatim>\<open>np.sqrt\<close>: \<^verbatim>\<open>nan\<close> (with a warning) below zero.\<close>

definition np_sqrt :: "npfloat \<Rightarrow> npfloat" where
  "np_sqrt a = (case a of None \<Rightarrow> None | Some x \<Rightarrow> if x < 0 then None else Some (sqrt x))"

text \<open>
  \<^verbatim>\<open>np.mean\<close> and \<^verbatim>\<open>np.std\<close> of a one-dimensional array. Both are \<^verbatim>\<open>nan\<close> on an empty
  array and on an array that holds a \<^verbatim>\<open>nan\<close>. \<^verbatim>\<open>np.std\<close> is called with its default
  \<^verbatim>\<open>ddof=0\<close>: the square root of the mean of the squared absolute deviations from
  the mean.
\<close>

definition np_mean :: "npfloat list \<Rightarrow> npfloat" where
  "np_mean xs =
     (case those xs of None \<Rightarrow> None
      | Some ys \<Rightarrow> if ys = [] then None else Some (sum_list ys / real (length ys)))"

definition np_std :: "npfloat list \<Rightarrow> npfloat" where
  "np_std xs =
     (case those xs of None \<Rightarrow> None
      | Some ys \<Rightarrow>
          if ys = [] then None
          else let m = sum_list ys / real (length ys)
               in Some (sqrt (sum_list (map (\<lambda>y. \<bar>y - m\<bar> ^ 2) ys) / real (length ys))))"

section \<open>Errors and arrays\<close>

datatype error = ZeroDivisionError | ValueError | IndexError

text \<open>A two-dimensional array is the list of its rows (axis 0 first).\<close>

definition table :: "(nat \<Rightarrow> nat \<Rightarrow> 'a) \<Rightarrow> nat \<Rightarrow> nat \<Rightarrow> 'a list list" where
  "table f n m = map (\<lambda>i. map (\<lambda>j. f i j) [0..<m]) [0..<n]"

text \<open>
  \<^verbatim>\<open>np.random.standard_normal(shape)\<close>: the draws come from the generator's state,
  which is an input of the model: \<open>rng i j\<close> is the number drawn for row \<open>i\<close> and column
  \<open>j\<close>. A negative dimension raises \<^verbatim>\<open>ValueError\<close>.
\<close>

definition standard_normal :: "(nat \<Rightarrow> nat \<Rightarrow> real) \<Rightarrow> int \<times> int \<Rightarrow> error + npfloat list list" where
  "standard_normal rng shape =
     (case shape of (n, m) \<Rightarrow>
        if n < 0 \<or> m < 0 then Inl ValueError
        else Inr (table (\<lambda>i j. Some (rng i j)) (nat n) (nat m)))"

text \<open>\<^verbatim>\<open>np.cumsum(a, axis=0)\<close>: the running sum of the rows.\<close>

fun cumsum_from :: "npfloat list \<Rightarrow> npfloat list list \<Rightarrow> npfloat list list" where
  "cumsum_from acc [] = []"
| "cumsum_from acc (row # rows) =
     (let acc' = map2 (lift2 (+)) acc row in acc' # cumsum_from acc' rows)"

definition cumsum_axis0 :: "npfloat list list \<Rightarrow> npfloat list list" where
  "cumsum_axis0 a = (case a of [] \<Rightarrow> [] | row # rows \<Rightarrow> row # cumsum_from row rows)"

text \<open>\<^verbatim>\<open>a[-1, :]\<close>: the last row; \<^verbatim>\<open>IndexError\<close> when axis 0 is empty.\<close>

definition last_row :: "'a list list \<Rightarrow> error + 'a list" where
  "last_row a = (if a = [] then Inl IndexError else Inr (last a))"

section \<open>The path simulator\<close>

text \<open>
  The result dictionary of \<^verbatim>\<open>monte_carlo_option_pricing\<close>. The wall-clock field
  \<^verbatim>\<open>elapsed_time\<close> is not modelled.
\<close>

record mc_result =
  option_price :: npfloat
  std_error :: npfloat
  confidence_interval_95 :: npfloat
  simulations :: int
  terminal_prices :: "npfloat list"

text \<open>The local variables of the function, in the order of the source.\<close>

definition mc_drift :: "real \<Rightarrow> real \<Rightarrow> real \<Rightarrow> real" where
  "mc_drift r sigma dt = (r - 0.5 * sigma ^ 2) * dt"

definition mc_diffusion :: "real \<Rightarrow> real \<Rightarrow> npfloat list list \<Rightarrow> npfloat list list" where
  "mc_diffusion sigma dt Z =
     map (map (\<lambda>z. lift2 (*) (lift2 (*) (Some sigma) (np_sqrt (Some dt))) z)) Z"

definition mc_price_paths :: "real \<Rightarrow> real \<Rightarrow> npfloat list list \<Rightarrow> npfloat list list" where
  "mc_price_paths S0 drift diffusion =
     map (map (\<lambda>c. lift2 (*) (Some S0) (lift1 exp c)))
       (cumsum_axis0 (map (map (\<lambda>d. lift2 (+) (Some drift) d)) diffusion))"

definition mc_payoffs :: "real \<Rightarrow> npfloat list \<Rightarrow> npfloat list" where
  "mc_payoffs K ST = map (\<lambda>s. lift2 max (lift2 (-) s (Some K)) (Some 0)) ST"

text \<open>
  \<^verbatim>\<open>monte_carlo_option_pricing(S0, K, T, r, sigma, n_sims, n_steps)\<close>. The market
  parameters are Python floats, the two counts Python integers. \<^verbatim>\<open>T / n_steps\<close>
  raises \<^verbatim>\<open>ZeroDivisionError\<close> for \<^verbatim>\<open>n_steps = 0\<close>; the draw raises
  \<^verbatim>\<open>ValueError\<close> for a negative count. The function checks nothing else.
\<close>

definition monte_carlo_option_pricing ::
  "(nat \<Rightarrow> nat \<Rightarrow> real) \<Rightarrow> real \<Rightarrow> real \<Rightarrow> real \<Rightarrow> real \<Rightarrow> real \<Rightarrow> int \<Rightarrow> int
     \<Rightarrow> error + mc_result" where
  "monte_carlo_option_pricing rng S0 K T r sigma n_sims n_steps =
     (if n_steps = 0 then Inl ZeroDivisionError
      else
        let dt = T / real_of_int n_steps in
        (case standard_normal rng (n_steps, n_sims) of
           Inl e \<Rightarrow> Inl e
         | Inr Z \<Rightarrow>
             (let drift = mc_drift r sigma dt;
                  diffusion = mc_diffusion sigma dt Z;
                  price_paths = mc_price_paths S0 drift diffusion
              in (case last_row price_paths of
                    Inl e \<Rightarrow> Inl e
                  | Inr ST \<Rightarrow>
                      (let payoffs = mc_payoffs K ST;
                           price = lift2 (*) (Some (exp (- r * T))) (np_mean payoffs);
                           se = lift2 (/) (np_std payoffs) (np_sqrt (Some (real_of_int n_sims)));
                           ci = lift2 (*) (Some 1.96) se
                       in Inr \<lparr>option_price = price, std_error = se,
                                confidence_interval_95 = ci, simulations = n_sims,
                                terminal_prices = ST\<rparr>)))))"

text \<open>
  The closed form the specification gives for the terminal price of path \<open>j\<close>:
  the initial price times the exponential of the sum, over all time steps, of
  \<open>drift + volatility * sqrt dt * Z\<close>.
\<close>

definition terminal_price_closed_form ::
  "(nat \<Rightarrow> nat \<Rightarrow> real) \<Rightarrow> real \<Rightarrow> real \<Rightarrow> real \<Rightarrow> real \<Rightarrow> int \<Rightarrow> nat \<Rightarrow> real" where
  "terminal_price_closed_form rng S0 T r sigma n_steps j =
     (let dt = T / real_of_int n_steps;
          drift = (r - 0.5 * sigma ^ 2) * dt
      in S0 * exp (\<Sum>i<nat n_steps. drift + sigma * sqrt dt * rng i j))"

section \<open>The linear-algebra benchmark\<close>

text \<open>
  \<^verbatim>\<open>np.random.randn(n, m)\<close>, \<^verbatim>\<open>np.dot\<close> of two matrices (entry \<open>(i, j)\<close> is the sum
  over \<open>k\<close> of \<open>A[i, k] * B[k, j]\<close>) and the slice \<^verbatim>\<open>C[:r, :c]\<close>.
\<close>

definition randn :: "(nat \<Rightarrow> nat \<Rightarrow> real) \<Rightarrow> nat \<Rightarrow> nat \<Rightarrow> real list list" where
  "randn rng n m = table (\<lambda>i j. rng i j) n m"

definition dot :: "real list list \<Rightarrow> real list list \<Rightarrow> real list list" where
  "dot A B =
     table (\<lambda>i j. sum_list (map (\<lambda>k. A ! i ! k * B ! k ! j) [0..<length B]))
       (length A) (if B = [] then 0 else length (hd B))"

definition leading :: "nat \<Rightarrow> nat \<Rightarrow> 'a list list \<Rightarrow> 'a list list" where
  "leading r c C = map (take c) (take r C)"

record benchmark_result =
  matrix_size :: nat
  max_eigenvalue :: real

text \<open>
  \<^verbatim>\<open>matrix_computation_benchmark()\<close>. The two generators' draws are inputs, and so is
  \<^verbatim>\<open>np.linalg.eigvals\<close>, a LAPACK routine outside the repository: \<open>eigvals M\<close> is the
  array of eigenvalues it returns for \<open>M\<close>. \<^verbatim>\<open>np.max\<close> raises \<^verbatim>\<open>ValueError\<close> on an
  empty array. The wall-clock field is not modelled.
\<close>

definition matrix_computation_benchmark ::
  "(nat \<Rightarrow> nat \<Rightarrow> real) \<Rightarrow> (nat \<Rightarrow> nat \<Rightarrow> real) \<Rightarrow> (real list list \<Rightarrow> complex list)
     \<Rightarrow> error + benchmark_result" where
  "matrix_computation_benchmark rngA rngB eigvals =
     (let size = 5000;
          A = randn rngA size size;
          B = randn rngB size size;
          C = dot A B;
          eigenvalues = eigvals (leading 1000 1000 C)
      in if eigenvalues = [] then Inl ValueError
         else Inr \<lparr>matrix_size = size, max_eigenvalue = Max (set (map cmod eigenvalues))\<rparr>)"

section \<open>The result aggregator\<close>

text \<open>
  Modelled from the spec: \<open>Phi\<close>, the standard normal cumulative distribution function,
  which the source takes from scipy (\<^verbatim>\<open>scipy.stats.norm.cdf\<close>, outside the
  repository). It is given here by its series: \<open>1/2\<close> plus \<open>1 / sqrt (2 pi)\<close> times the
  integral of \<open>exp (- t\<^sup>2 / 2)\<close> from \<open>0\<close> to \<open>x\<close>, integrated term by term.
\<close>

definition norm_cdf_coeff :: "nat \<Rightarrow> real" where
  "norm_cdf_coeff n = 1 / (2 ^ n * fact n * real (2 * n + 1))"

definition norm_cdf_series :: "real \<Rightarrow> real" where
  "norm_cdf_series x = (\<Sum>n. (- 1) ^ n * (norm_cdf_coeff n * x ^ (2 * n + 1)))"

definition norm_cdf :: "real \<Rightarrow> real" where
  "norm_cdf x = 1 / 2 + 1 / sqrt (2 * pi) * norm_cdf_series x"

text \<open>The same series as a power series in \<open>x\<close>: the coefficient of \<open>x ^ Suc n\<close>.\<close>

definition norm_cdf_power_coeff :: "nat \<Rightarrow> real" where
  "norm_cdf_power_coeff n = (if even n then (- 1) ^ (n div 2) * norm_cdf_coeff (n div 2) else 0)"

text \<open>The analytical price, with the five constants of \<^verbatim>\<open>main\<close>.\<close>

definition analytical_price :: real where
  "analytical_price =
     (let S0 = 100; K = 105; T = 1; r = 0.05; sigma = 0.2;
          d1 = (ln (S0 / K) + (r + 0.5 * sigma ^ 2) * T) / (sigma * sqrt T);
          d2 = d1 - sigma * sqrt T
      in S0 * norm_cdf d1 - K * exp (- r * T) * norm_cdf d2)"

text \<open>The Black-Scholes closed form as the specification writes it.\<close>

definition bs_d1 :: "real \<Rightarrow> real \<Rightarrow> real \<Rightarrow> real \<Rightarrow> real \<Rightarrow> real" where
  "bs_d1 S0 K T r sigma = (ln (S0 / K) + (r + 0.5 * sigma ^ 2) * T) / (sigma * sqrt T)"

definition bs_d2 :: "real \<Rightarrow> real \<Rightarrow> real \<Rightarrow> real \<Rightarrow> real \<Rightarrow> real" where
  "bs_d2 S0 K T r sigma = bs_d1 S0 K T r sigma - sigma * sqrt T"

definition black_scholes_call :: "(real \<Rightarrow> real) \<Rightarrow> real \<Rightarrow> real \<Rightarrow> real \<Rightarrow> real \<Rightarrow> real \<Rightarrow> real" where
  "black_scholes_call Phi S0 K T r sigma =
     S0 * Phi (bs_d1 S0 K T r sigma) - K * exp (- r * T) * Phi (bs_d2 S0 K T r sigma)"

text \<open>
  The summary row (the columns that do not hold a time), computed from the two result
  dictionaries.
\<close>

record summary_row =
  monte_carlo_simulations :: int
  mc_option_price :: npfloat
  mc_std_error :: npfloat
  mc_ci_95 :: npfloat
  analytical_bs_price :: real
  pricing_error :: npfloat
  error_percentage :: npfloat
  matrix_computation_size :: nat
  matrix_max_eigenvalue :: real

definition results_summary :: "mc_result \<Rightarrow> benchmark_result \<Rightarrow> summary_row" where
  "results_summary mc_results matrix_results =
     (let err = lift1 abs (lift2 (-) (option_price mc_results) (Some analytical_price));
          pct = lift2 (*) (lift2 (/) err (Some analytical_price)) (Some 100)
      in \<lparr>monte_carlo_simulations = simulations mc_results,
          mc_option_price = option_price mc_results,
          mc_std_error = std_error mc_results,
          mc_ci_95 = confidence_interval_95 mc_results,
          analytical_bs_price = analytical_price,
          pricing_error = err,
          error_percentage = pct,
          matrix_computation_size = matrix_size matrix_results,
          matrix_max_eigenvalue = max_eigenvalue matrix_results\<rparr>)"

text \<open>
  The statistics of the terminal prices. \<^verbatim>\<open>np.median\<close> sorts and takes the middle
  element, or the mean of the two middle ones; \<^verbatim>\<open>np.percentile\<close> (default method,
  linear) sorts and interpolates between the two elements around the position
  \<open>(n - 1) * q / 100\<close>; \<^verbatim>\<open>np.min\<close> and \<^verbatim>\<open>np.max\<close> raise \<^verbatim>\<open>ValueError\<close> on an empty
  array. All of them are \<^verbatim>\<open>nan\<close> on an array that holds a \<^verbatim>\<open>nan\<close>.
\<close>

definition median_sorted :: "real list \<Rightarrow> real" where
  "median_sorted s =
     (let n = length s
      in if odd n then s ! (n div 2) else (s ! (n div 2 - 1) + s ! (n div 2)) / 2)"

definition np_median :: "npfloat list \<Rightarrow> npfloat" where
  "np_median xs =
     (case those xs of None \<Rightarrow> None
      | Some ys \<Rightarrow> if ys = [] then None else Some (median_sorted (sort ys)))"

definition interpolate_sorted :: "real list \<Rightarrow> real \<Rightarrow> real" where
  "interpolate_sorted s pos =
     (let lo = nat \<lfloor>pos\<rfloor>;
          hi = min (lo + 1) (length s - 1);
          g = pos - real lo
      in s ! lo + (s ! hi - s ! lo) * g)"

definition percentile_sorted :: "real list \<Rightarrow> real \<Rightarrow> real" where
  "percentile_sorted s q = interpolate_sorted s (real (length s - 1) * (q / 100))"

text \<open>
  On an empty array \<^verbatim>\<open>main\<close> never reaches \<^verbatim>\<open>np.percentile\<close> (\<^verbatim>\<open>np.min\<close> raises
  first); the model gives \<^verbatim>\<open>nan\<close> there.
\<close>

definition np_percentile :: "npfloat list \<Rightarrow> real \<Rightarrow> npfloat" where
  "np_percentile xs q =
     (case those xs of None \<Rightarrow> None
      | Some ys \<Rightarrow> if ys = [] then None else Some (percentile_sorted (sort ys) q))"

definition np_min :: "npfloat list \<Rightarrow> error + npfloat" where
  "np_min xs =
     (if xs = [] then Inl ValueError
      else Inr (case those xs of None \<Rightarrow> None | Some ys \<Rightarrow> Some (Min (set ys))))"

definition np_max :: "npfloat list \<Rightarrow> error + npfloat" where
  "np_max xs =
     (if xs = [] then Inl ValueError
      else Inr (case those xs of None \<Rightarrow> None | Some ys \<Rightarrow> Some (Max (set ys))))"

record stats_row =
  ts_mean :: npfloat
  ts_median :: npfloat
  ts_std :: npfloat
  ts_min :: npfloat
  ts_max :: npfloat
  ts_percentile_25 :: npfloat
  ts_percentile_75 :: npfloat
  ts_percentile_95 :: npfloat

definition terminal_stats :: "npfloat list \<Rightarrow> error + stats_row" where
  "terminal_stats prices =
     (case np_min prices of
        Inl e \<Rightarrow> Inl e
      | Inr mn \<Rightarrow>
          (case np_max prices of
             Inl e \<Rightarrow> Inl e
           | Inr mx \<Rightarrow>
               Inr \<lparr>ts_mean = np_mean prices, ts_median = np_median prices,
                    ts_std = np_std prices, ts_min = mn, ts_max = mx,
                    ts_percentile_25 = np_percentile prices 25,
                    ts_percentile_75 = np_percentile prices 75,
                    ts_percentile_95 = np_percentile prices 95\<rparr>))"

text \<open>
  \<^verbatim>\<open>main()\<close>: the simulator and the benchmark with the constants of the module, then
  the two rows. Writing the files and printing are not modelled.
\<close>

definition SIMULATIONS :: int where
  "SIMULATIONS = 10000000"

definition TIME_STEPS :: int where
  "TIME_STEPS = 252"

definition main ::
  "(nat \<Rightarrow> nat \<Rightarrow> real) \<Rightarrow> (nat \<Rightarrow> nat \<Rightarrow> real) \<Rightarrow> (nat \<Rightarrow> nat \<Rightarrow> real)
     \<Rightarrow> (real list list \<Rightarrow> complex list) \<Rightarrow> error + summary_row \<times> stats_row" where
  "main rng rngA rngB eigvals =
     (case monte_carlo_option_pricing rng 100 105 1 0.05 0.2 SIMULATIONS TIME_STEPS of
        Inl e \<Rightarrow> Inl e
      | Inr mc_results \<Rightarrow>
          (case matrix_computation_benchmark rngA rngB eigvals of
             Inl e \<Rightarrow> Inl e
           | Inr matrix_results \<Rightarrow>
               (case terminal_stats (terminal_prices mc_results) of
                  Inl e \<Rightarrow> Inl e
                | Inr stats \<Rightarrow> Inr (results_summary mc_results matrix_results, stats))))"

text \<open>The draws that are all zero, for concrete runs.\<close>

definition zero_draws :: "nat \<Rightarrow> nat \<Rightarrow> real" where
  "zero_draws i j = 0"

text \<open>Draws that send the second path to twice the price of the first, for concrete runs.\<close>

definition example_draws :: "nat \<Rightarrow> nat \<Rightarrow> real" where
  "example_draws i j = (if j = 1 then ln 2 else 0)"

text \<open>An eigenvalue routine that returns zeros, for concrete runs.\<close>

definition zero_eigvals :: "real list list \<Rightarrow> complex list" where
  "zero_eigvals M = map (\<lambda>row. 0) M"

section \<open>Arrays of numbers\<close>

lemma those_map_Some: "those (map Some ys) = Some ys"
  by (induction ys) simp_all

lemma length_table: "length (table f n m) = n"
  by (simp add: table_def)

lemma nth_table: "i < n \<Longrightarrow> j < m \<Longrightarrow> table f n m ! i ! j = f i j"
  by (simp add: table_def)

lemma map_map_table: "map (map g) (table f n m) = table (\<lambda>i j. g (f i j)) n m"
  by (simp add: table_def)

lemma last_row_table:
  "0 < n \<Longrightarrow> last_row (table f n m) = Inr (map (\<lambda>j. f (n - 1) j) [0..<m])"
  by (simp add: last_row_def table_def last_map)

lemma map2_same: "map2 g (map p xs) (map q xs) = map (\<lambda>x. g (p x) (q x)) xs"
  by (induction xs) simp_all

lemma cumsum_from_rows:
  "cumsum_from (map (\<lambda>j. Some (\<Sum>k<s. f k j)) [0..<m])
       (map (\<lambda>i. map (\<lambda>j. Some (f i j)) [0..<m]) [s..<s + n])
     = map (\<lambda>i. map (\<lambda>j. Some (\<Sum>k\<le>i. f k j)) [0..<m]) [s..<s + n]"
proof (induction n arbitrary: s)
  case 0
  then show ?case by simp
next
  case (Suc n)
  let ?row = "\<lambda>i. map (\<lambda>j. Some (f i j)) [0..<m]"
  let ?out = "\<lambda>i. map (\<lambda>j. Some (\<Sum>k\<le>i. f k j)) [0..<m]"
  have step: "map2 (lift2 (+)) (map (\<lambda>j. Some (\<Sum>k<s. f k j)) [0..<m]) (?row s)
               = map (\<lambda>j. Some (\<Sum>k<Suc s. f k j)) [0..<m]"
    unfolding map2_same by (simp add: lift2_def)
  have head: "map (\<lambda>j. Some (\<Sum>k<Suc s. f k j)) [0..<m] = ?out s"
    by (simp add: lessThan_Suc_atMost)
  have range: "[s..<s + Suc n] = s # [Suc s..<Suc s + n]"
    by (simp add: upt_conv_Cons)
  have "cumsum_from (map (\<lambda>j. Some (\<Sum>k<s. f k j)) [0..<m]) (map ?row [s..<s + Suc n])
      = cumsum_from (map (\<lambda>j. Some (\<Sum>k<s. f k j)) [0..<m]) (?row s # map ?row [Suc s..<Suc s + n])"
    unfolding range by simp
  also have "\<dots> = map (\<lambda>j. Some (\<Sum>k<Suc s. f k j)) [0..<m]
       # cumsum_from (map (\<lambda>j. Some (\<Sum>k<Suc s. f k j)) [0..<m]) (map ?row [Suc s..<Suc s + n])"
    unfolding cumsum_from.simps Let_def step ..
  also have "\<dots> = map (\<lambda>j. Some (\<Sum>k<Suc s. f k j)) [0..<m] # map ?out [Suc s..<Suc s + n]"
    unfolding Suc.IH ..
  also have "\<dots> = ?out s # map ?out [Suc s..<Suc s + n]"
    unfolding head ..
  also have "\<dots> = map ?out [s..<s + Suc n]"
    unfolding range by simp
  finally show ?case .
qed

lemma cumsum_axis0_table:
  "cumsum_axis0 (table (\<lambda>i j. Some (f i j)) n m) = table (\<lambda>i j. Some (\<Sum>k\<le>i. f k j)) n m"
proof (cases n)
  case 0
  then show ?thesis by (simp add: cumsum_axis0_def table_def)
next
  case (Suc n')
  let ?row = "\<lambda>i. map (\<lambda>j. Some (f i j)) [0..<m]"
  let ?out = "\<lambda>i. map (\<lambda>j. Some (\<Sum>k\<le>i. f k j)) [0..<m]"
  have range: "[0..<Suc n'] = 0 # [Suc 0..<Suc 0 + n']"
    by (simp add: upt_conv_Cons)
  have first: "?row 0 = map (\<lambda>j. Some (\<Sum>k<Suc 0. f k j)) [0..<m]"
    by simp
  have first': "?row 0 = ?out 0"
    by simp
  have "cumsum_axis0 (table (\<lambda>i j. Some (f i j)) n m)
      = cumsum_axis0 (?row 0 # map ?row [Suc 0..<Suc 0 + n'])"
    unfolding Suc table_def range list.map ..
  also have "\<dots> = ?row 0 # cumsum_from (?row 0) (map ?row [Suc 0..<Suc 0 + n'])"
    unfolding cumsum_axis0_def list.case ..
  also have "\<dots> = ?row 0 # cumsum_from (map (\<lambda>j. Some (\<Sum>k<Suc 0. f k j)) [0..<m]) (map ?row [Suc 0..<Suc 0 + n'])"
    using first by presburger
  also have "\<dots> = ?row 0 # map ?out [Suc 0..<Suc 0 + n']"
    unfolding cumsum_from_rows ..
  also have "\<dots> = ?out 0 # map ?out [Suc 0..<Suc 0 + n']"
    using first' by presburger
  also have "\<dots> = table (\<lambda>i j. Some (\<Sum>k\<le>i. f k j)) n m"
    unfolding Suc table_def range list.map ..
  finally show ?thesis .
qed

section \<open>Runs of the simulator\<close>

lemma mc_diffusion_table:
  "0 \<le> dt \<Longrightarrow> mc_diffusion sigma dt (table (\<lambda>i j. Some (z i j)) n m)
     = table (\<lambda>i j. Some (sigma * sqrt dt * z i j)) n m"
  by (simp add: mc_diffusion_def map_map_table lift2_def np_sqrt_def)

lemma mc_diffusion_table_nan:
  "dt < 0 \<Longrightarrow> mc_diffusion sigma dt (table (\<lambda>i j. Some (z i j)) n m) = table (\<lambda>i j. None) n m"
  by (simp add: mc_diffusion_def map_map_table lift2_def np_sqrt_def)

lemma mc_price_paths_table:
  "mc_price_paths S0 drift (table (\<lambda>i j. Some (d i j)) n m)
     = table (\<lambda>i j. Some (S0 * exp (\<Sum>k\<le>i. drift + d k j))) n m"
  by (simp add: mc_price_paths_def map_map_table lift2_def lift1_def cumsum_axis0_table)

lemma cumsum_from_nan:
  "cumsum_from (map (\<lambda>j. None) [0..<m]) (map (\<lambda>i. map (\<lambda>j. None) [0..<m]) is)
     = map (\<lambda>i. map (\<lambda>j. None) [0..<m]) is"
  by (induction "is") (simp_all add: map2_same lift2_def Let_def)

lemma cumsum_axis0_nan:
  "cumsum_axis0 (table (\<lambda>i j. None) n m) = table (\<lambda>i j. None) n m"
proof (cases n)
  case 0
  then show ?thesis by (simp add: cumsum_axis0_def table_def)
next
  case (Suc n')
  have range: "[0..<Suc n'] = 0 # [Suc 0..<Suc n']"
    by (simp add: upt_conv_Cons)
  show ?thesis
    unfolding Suc table_def range list.map cumsum_axis0_def list.case cumsum_from_nan ..
qed

lemma mc_price_paths_nan:
  "mc_price_paths S0 drift (table (\<lambda>i j. None) n m) = table (\<lambda>i j. None) n m"
  by (simp add: mc_price_paths_def map_map_table lift2_def lift1_def cumsum_axis0_nan)

lemma mc_payoffs_numbers:
  "mc_payoffs K (map (\<lambda>j. Some (g j)) js) = map (\<lambda>j. Some (max (g j - K) 0)) js"
  by (simp add: mc_payoffs_def lift2_def)

lemma mc_payoffs_nan: "mc_payoffs K (map (\<lambda>j. None) js) = map (\<lambda>j. None) js"
  by (simp add: mc_payoffs_def lift2_def)

lemma those_numbers: "those (map (\<lambda>j. Some (g j)) js) = Some (map g js)"
  by (induction js) simp_all

lemma those_nan: "js \<noteq> [] \<Longrightarrow> those (map (\<lambda>j. None) js) = None"
  by (cases js) simp_all

lemma np_mean_nan: "np_mean (map (\<lambda>j. None) js) = None"
  by (cases js) (simp_all add: np_mean_def)

lemma np_std_nan: "np_std (map (\<lambda>j. None) js) = None"
  by (cases js) (simp_all add: np_std_def)

lemma sum_list_upt: "sum_list (map g [0..<n]) = (\<Sum>k<n. g k)" for g :: "nat \<Rightarrow> real"
  by (simp add: interv_sum_list_conv_sum_set_nat atLeast0LessThan)

lemma atMost_pred: "0 < n \<Longrightarrow> {..n - Suc 0} = {..<n}" for n :: nat
  by (cases n) (simp_all add: lessThan_Suc_atMost)

lemma mc_run_numbers:
  assumes "0 < n_steps" and "0 \<le> n_sims" and "0 \<le> T"
  shows "monte_carlo_option_pricing rng S0 K T r sigma n_sims n_steps =
     Inr \<lparr>option_price = lift2 (*) (Some (exp (- r * T)))
              (np_mean (map (\<lambda>j. Some (max (terminal_price_closed_form rng S0 T r sigma n_steps j - K) 0))
                 [0..<nat n_sims])),
           std_error = lift2 (/)
              (np_std (map (\<lambda>j. Some (max (terminal_price_closed_form rng S0 T r sigma n_steps j - K) 0))
                 [0..<nat n_sims]))
              (Some (sqrt (real_of_int n_sims))),
           confidence_interval_95 = lift2 (*) (Some 1.96) (lift2 (/)
              (np_std (map (\<lambda>j. Some (max (terminal_price_closed_form rng S0 T r sigma n_steps j - K) 0))
                 [0..<nat n_sims]))
              (Some (sqrt (real_of_int n_sims)))),
           simulations = n_sims,
           terminal_prices = map (\<lambda>j. Some (terminal_price_closed_form rng S0 T r sigma n_steps j))
              [0..<nat n_sims]\<rparr>"
proof -
  have dt: "0 \<le> T / real_of_int n_steps"
    using assms by simp
  have n: "0 < nat n_steps"
    using assms by simp
  have ST: "last_row (mc_price_paths S0 (mc_drift r sigma (T / real_of_int n_steps))
              (mc_diffusion sigma (T / real_of_int n_steps)
                 (table (\<lambda>i j. Some (rng i j)) (nat n_steps) (nat n_sims))))
          = Inr (map (\<lambda>j. Some (terminal_price_closed_form rng S0 T r sigma n_steps j)) [0..<nat n_sims])"
    unfolding mc_diffusion_table [OF dt] mc_price_paths_table last_row_table [OF n]
    by (simp add: terminal_price_closed_form_def mc_drift_def atMost_pred [OF n])
  have sq: "np_sqrt (Some (real_of_int n_sims)) = Some (sqrt (real_of_int n_sims))"
    using assms by (simp add: np_sqrt_def)
  show ?thesis
    using assms(1,2)
    by (simp add: monte_carlo_option_pricing_def standard_normal_def ST mc_payoffs_numbers sq Let_def)
qed

lemma mc_run_nan:
  assumes "0 < n_steps" and "0 \<le> n_sims" and "T < 0"
  shows "monte_carlo_option_pricing rng S0 K T r sigma n_sims n_steps =
     Inr \<lparr>option_price = None, std_error = None, confidence_interval_95 = None,
           simulations = n_sims, terminal_prices = map (\<lambda>j. None) [0..<nat n_sims]\<rparr>"
proof -
  have dt: "T / real_of_int n_steps < 0"
    using assms by (simp add: divide_neg_pos)
  have n: "0 < nat n_steps"
    using assms by simp
  have ST: "last_row (mc_price_paths S0 (mc_drift r sigma (T / real_of_int n_steps))
              (mc_diffusion sigma (T / real_of_int n_steps)
                 (table (\<lambda>i j. Some (rng i j)) (nat n_steps) (nat n_sims))))
          = Inr (map (\<lambda>j. None) [0..<nat n_sims])"
    unfolding mc_diffusion_table_nan [OF dt] mc_price_paths_nan last_row_table [OF n] ..
  show ?thesis
    using assms(1,2)
    by (simp add: monte_carlo_option_pricing_def standard_normal_def ST mc_payoffs_nan
        np_mean_nan np_std_nan lift2_def Let_def)
qed

lemma mc_run_errors:
  "n_steps = 0 \<Longrightarrow> monte_carlo_option_pricing rng S0 K T r sigma n_sims n_steps = Inl ZeroDivisionError"
  "n_steps \<noteq> 0 \<Longrightarrow> n_steps < 0 \<or> n_sims < 0 \<Longrightarrow>
     monte_carlo_option_pricing rng S0 K T r sigma n_sims n_steps = Inl ValueError"
  by (auto simp add: monte_carlo_option_pricing_def standard_normal_def)

lemma mc_run_returns:
  assumes "monte_carlo_option_pricing rng S0 K T r sigma n_sims n_steps = Inr res"
  shows "0 < n_steps \<and> 0 \<le> n_sims"
proof -
  have "n_steps \<noteq> 0"
    using assms mc_run_errors(1) [of n_steps rng S0 K T r sigma n_sims] by auto
  moreover have "\<not> (n_steps < 0 \<or> n_sims < 0)"
    using assms mc_run_errors(2) [of n_steps n_sims rng S0 K T r sigma] \<open>n_steps \<noteq> 0\<close> by auto
  ultimately show ?thesis by auto
qed

lemma np_mean_numbers:
  "np_mean (map (\<lambda>j. Some (g j)) js) = (if js = [] then None else Some (sum_list (map g js) / real (length js)))"
  by (simp add: np_mean_def those_numbers)

lemma np_std_numbers:
  "np_std (map (\<lambda>j. Some (g j)) js) =
     (if js = [] then None
      else Some (sqrt (sum_list (map (\<lambda>y. (y - sum_list (map g js) / real (length js)) ^ 2) (map g js))
                   / real (length js))))"
  by (simp add: np_std_def those_numbers Let_def comp_def)

lemma upt_0_2: "[0..<2] = [0, 1]"
  by (simp add: upt_rec)

lemma mc_run_shape:
  assumes "monte_carlo_option_pricing rng S0 K T r sigma n_sims n_steps = Inr res"
  shows "(0 \<le> T \<and> terminal_prices res =
            map (\<lambda>j. Some (terminal_price_closed_form rng S0 T r sigma n_steps j)) [0..<nat n_sims])
       \<or> (T < 0 \<and> terminal_prices res = map (\<lambda>j. None) [0..<nat n_sims])"
proof -
  have pos: "0 < n_steps" "0 \<le> n_sims"
    using mc_run_returns [OF assms] by simp_all
  show ?thesis
  proof (cases "0 \<le> T")
    case True
    with assms mc_run_numbers [OF pos True, of rng S0 K r sigma] show ?thesis by auto
  next
    case False
    then have neg: "T < 0" by simp
    with assms mc_run_nan [OF pos neg, of rng S0 K r sigma] show ?thesis by auto
  qed
qed

lemma mc_run_fields:
  assumes "monte_carlo_option_pricing rng S0 K T r sigma n_sims n_steps = Inr res"
  shows "option_price res =
           lift2 (*) (Some (exp (- r * T))) (np_mean (mc_payoffs K (terminal_prices res)))"
  using assms
  by (auto simp add: monte_carlo_option_pricing_def Let_def split: if_splits sum.splits)

lemma terminal_price_closed_form_pos:
  "0 < S0 \<Longrightarrow> 0 < terminal_price_closed_form rng S0 T r sigma n_steps j"
  by (simp add: terminal_price_closed_form_def Let_def)

lemma sum_list_map_nonneg: "(\<And>j. 0 \<le> g j) \<Longrightarrow> 0 \<le> sum_list (map g js)" for g :: "'a \<Rightarrow> real"
  by (induction js) simp_all

lemma sqrt_2500: "sqrt 2500 = 50"
  using real_sqrt_abs [of 50] by simp

lemma mc_run_example:
  "monte_carlo_option_pricing example_draws 100 50 1 (1 / 2) 1 2 1
      = Inr \<lparr>option_price = Some (exp (- (1 / 2)) * 100), std_error = Some (50 / sqrt 2),
              confidence_interval_95 = Some (1.96 * (50 / sqrt 2)),
              simulations = 2, terminal_prices = [Some 100, Some 200]\<rparr>"
  by (simp add: mc_run_numbers terminal_price_closed_form_def example_draws_def Let_def
      np_mean_def np_std_def lift2_def upt_0_2 sqrt_2500)

lemma mc_run_no_paths:
  assumes "0 < n_steps"
  shows "monte_carlo_option_pricing rng S0 K T r sigma 0 n_steps
      = Inr \<lparr>option_price = None, std_error = None, confidence_interval_95 = None,
              simulations = 0, terminal_prices = []\<rparr>"
proof (cases "0 \<le> T")
  case True
  show ?thesis
    using mc_run_numbers [OF assms _ True, of 0 rng S0 K r sigma]
    by (simp add: np_mean_def np_std_def lift2_def)
next
  case False
  then have "T < 0" by simp
  then show ?thesis
    using mc_run_nan [OF assms, of 0 T rng S0 K r sigma] by simp
qed

section \<open>The claims about the simulator\<close>

text \<open>
  C1. For valid simulation parameters (positive counts, positive maturity, volatility
  and initial price) the simulator returns; the drift is
  \<open>(r - 0.5 * sigma\<^sup>2) * dt\<close> with \<open>dt = T / n_steps\<close>; the price table holds, at step
  \<open>i\<close> and path \<open>j\<close>, the initial price times the exponential of the cumulative sum
  of the increments \<open>drift + sigma * sqrt dt * Z\<close> up to step \<open>i\<close>; and the terminal
  prices are the last row of the table: for each path, the initial price times the
  exponential of the sum of the increments over all time steps.
\<close>

theorem terminal_price_is_closed_form:
  assumes "0 < n_steps" and "0 < n_sims" and "0 < T" and "0 < sigma" and "0 < S0"
  shows "\<exists>res. monte_carlo_option_pricing rng S0 K T r sigma n_sims n_steps = Inr res
     \<and> (let dt = T / real_of_int n_steps;
            drift = (r - 0.5 * sigma ^ 2) * dt;
            increment = (\<lambda>i j. drift + sigma * sqrt dt * rng i j);
            Z = table (\<lambda>i j. Some (rng i j)) (nat n_steps) (nat n_sims);
            price_paths = mc_price_paths S0 (mc_drift r sigma dt) (mc_diffusion sigma dt Z)
        in mc_drift r sigma dt = drift
         \<and> length price_paths = nat n_steps
         \<and> (\<forall>i<nat n_steps. \<forall>j<nat n_sims.
               price_paths ! i ! j = Some (S0 * exp (\<Sum>k\<le>i. increment k j)))
         \<and> last_row price_paths = Inr (terminal_prices res)
         \<and> length (terminal_prices res) = nat n_sims
         \<and> (\<forall>j<nat n_sims.
               terminal_prices res ! j = Some (S0 * exp (\<Sum>i<nat n_steps. increment i j))))"
proof -
  let ?dt = "T / real_of_int n_steps"
  have dt: "0 \<le> ?dt" using assms by simp
  have n: "0 < nat n_steps" using assms by simp
  have paths: "mc_price_paths S0 (mc_drift r sigma ?dt)
       (mc_diffusion sigma ?dt (table (\<lambda>i j. Some (rng i j)) (nat n_steps) (nat n_sims)))
     = table (\<lambda>i j. Some (S0 * exp (\<Sum>k\<le>i. mc_drift r sigma ?dt + sigma * sqrt ?dt * rng k j)))
         (nat n_steps) (nat n_sims)"
    unfolding mc_diffusion_table [OF dt] mc_price_paths_table ..
  have run: "monte_carlo_option_pricing rng S0 K T r sigma n_sims n_steps = Inr
     \<lparr>option_price = lift2 (*) (Some (exp (- r * T)))
              (np_mean (map (\<lambda>j. Some (max (terminal_price_closed_form rng S0 T r sigma n_steps j - K) 0))
                 [0..<nat n_sims])),
           std_error = lift2 (/)
              (np_std (map (\<lambda>j. Some (max (terminal_price_closed_form rng S0 T r sigma n_steps j - K) 0))
                 [0..<nat n_sims]))
              (Some (sqrt (real_of_int n_sims))),
           confidence_interval_95 = lift2 (*) (Some 1.96) (lift2 (/)
              (np_std (map (\<lambda>j. Some (max (terminal_price_closed_form rng S0 T r sigma n_steps j - K) 0))
                 [0..<nat n_sims]))
              (Some (sqrt (real_of_int n_sims)))),
           simulations = n_sims,
           terminal_prices = map (\<lambda>j. Some (terminal_price_closed_form rng S0 T r sigma n_steps j))
              [0..<nat n_sims]\<rparr>"
    using assms by (intro mc_run_numbers) simp_all
  show ?thesis
    unfolding run Let_def paths
    by (simp add: length_table nth_table last_row_table [OF n] terminal_price_closed_form_def
        mc_drift_def atMost_pred [OF n])
qed

theorem terminal_price_is_closed_form_witness:
  "\<exists>res. monte_carlo_option_pricing zero_draws 100 105 1 (5 / 100) (2 / 10) 2 3 = Inr res
     \<and> length (terminal_prices res) = 2
     \<and> terminal_prices res ! 0 = Some (100 * exp (3 / 100))
     \<and> terminal_prices res ! 1 = Some (100 * exp (3 / 100))"
proof -
  obtain res where
    run: "monte_carlo_option_pricing zero_draws 100 105 1 (5 / 100) (2 / 10) 2 3 = Inr res"
    and len: "length (terminal_prices res) = 2"
    and val: "\<forall>j<2. terminal_prices res ! j = Some (100 * exp (3 / 100))"
    using terminal_price_is_closed_form [of 3 2 1 "2 / 10" 100 zero_draws 105 "5 / 100"]
    by (auto simp add: Let_def zero_draws_def power2_eq_square)
  from val have "terminal_prices res ! 0 = Some (100 * exp (3 / 100))"
    and "terminal_prices res ! 1 = Some (100 * exp (3 / 100))"
    by simp_all
  with run len show ?thesis by blast
qed

text \<open>
  C3. For valid simulation parameters the simulator returns, and with
  \<open>payoff j = max (terminal_price j - strike) 0\<close> for the terminal price of path \<open>j\<close>,
  \<open>mean\<close> the mean of the payoffs and \<open>std\<close> the square root of the mean of their
  squared deviations from \<open>mean\<close>, the reported standard error is
  \<open>std / sqrt n_sims\<close> and the reported 95% confidence half-width is the constant
  \<open>1.96\<close> times that standard error.
\<close>

theorem standard_error_and_half_width:
  assumes "0 < n_steps" and "0 < n_sims" and "0 \<le> T"
  shows "\<exists>res.
       monte_carlo_option_pricing rng S0 K T r sigma n_sims n_steps = Inr res
     \<and> (let n = real_of_int n_sims;
            payoff = (\<lambda>j. max (terminal_price_closed_form rng S0 T r sigma n_steps j - K) 0);
            mean = (\<Sum>j<nat n_sims. payoff j) / n;
            std = sqrt ((\<Sum>j<nat n_sims. (payoff j - mean) ^ 2) / n)
        in terminal_prices res
             = map (\<lambda>j. Some (terminal_price_closed_form rng S0 T r sigma n_steps j)) [0..<nat n_sims]
         \<and> std_error res = Some (std / sqrt n)
         \<and> confidence_interval_95 res = Some (196 / 100 * (std / sqrt n)))"
proof -
  let ?pay = "\<lambda>j. max (terminal_price_closed_form rng S0 T r sigma n_steps j - K) 0"
  have n: "0 \<le> n_sims" using assms by simp
  have ne: "[0..<nat n_sims] \<noteq> []" using assms by simp
  have len: "real (nat n_sims) = real_of_int n_sims"
    using assms by simp
  have sums: "sum_list (map g [0..<nat n_sims]) = (\<Sum>j<nat n_sims. g j)" for g :: "nat \<Rightarrow> real"
    by (simp add: sum_list_upt)
  have std: "np_std (map (\<lambda>j. Some (?pay j)) [0..<nat n_sims])
      = Some (sqrt ((\<Sum>j<nat n_sims. (?pay j - (\<Sum>j<nat n_sims. ?pay j) / real_of_int n_sims) ^ 2)
                / real_of_int n_sims))"
    unfolding np_std_numbers using ne by (simp add: sums len comp_def)
  show ?thesis
    unfolding mc_run_numbers [OF assms(1) n assms(3)] std Let_def
    by (simp add: lift2_def)
qed

theorem standard_error_and_half_width_witness:
  "\<exists>res. monte_carlo_option_pricing example_draws 100 50 1 (1 / 2) 1 2 1 = Inr res
     \<and> terminal_prices res = [Some 100, Some 200]
     \<and> std_error res = Some (50 / sqrt 2)
     \<and> confidence_interval_95 res = Some (196 / 100 * (50 / sqrt 2))"
proof -
  obtain res where run: "monte_carlo_option_pricing example_draws 100 50 1 (1 / 2) 1 2 1 = Inr res"
    and rest: "(let n = real_of_int 2;
            payoff = (\<lambda>j. max (terminal_price_closed_form example_draws 100 1 (1 / 2) 1 1 j - 50) 0);
            mean = (\<Sum>j<nat 2. payoff j) / n;
            std = sqrt ((\<Sum>j<nat 2. (payoff j - mean) ^ 2) / n)
        in terminal_prices res
             = map (\<lambda>j. Some (terminal_price_closed_form example_draws 100 1 (1 / 2) 1 1 j)) [0..<nat 2]
         \<and> std_error res = Some (std / sqrt n)
         \<and> confidence_interval_95 res = Some (196 / 100 * (std / sqrt n)))"
    using standard_error_and_half_width [where n_steps = 1 and n_sims = 2 and T = 1
      and rng = example_draws and ?S0.0 = 100 and K = 50 and r = "1 / 2" and sigma = 1]
    by auto
  have tp: "terminal_price_closed_form example_draws 100 1 (1 / 2) 1 1 0 = 100"
    "terminal_price_closed_form example_draws 100 1 (1 / 2) 1 1 (Suc 0) = 200"
    by (simp_all add: terminal_price_closed_form_def example_draws_def Let_def)
  have two: "{..<2::nat} = {0, Suc 0}" by auto
  from rest have "terminal_prices res = [Some 100, Some 200]
     \<and> std_error res = Some (50 / sqrt 2)
     \<and> confidence_interval_95 res = Some (196 / 100 * (50 / sqrt 2))"
    by (simp add: Let_def tp two upt_0_2 sqrt_2500 numeral_2_eq_2)
  with run show ?thesis by blast
qed

text \<open>
  C6, as the code has it. The simulator has no guard of its own and no
  \<^verbatim>\<open>InvalidParameter\<close> error. With \<^verbatim>\<open>n_steps = 0\<close> it fails with
  \<^verbatim>\<open>ZeroDivisionError\<close> at \<^verbatim>\<open>T / n_steps\<close>; with a negative count (and
  \<^verbatim>\<open>n_steps\<close> not zero) it fails with \<^verbatim>\<open>ValueError\<close> at the draw, before any path is
  computed; with \<^verbatim>\<open>n_sims = 0\<close> and a positive \<^verbatim>\<open>n_steps\<close> it does not fail: it
  returns an empty terminal vector and \<^verbatim>\<open>nan\<close> for the price, the standard error and
  the confidence half-width.
\<close>

theorem invalid_counts:
  "(n_steps = 0 \<longrightarrow>
      monte_carlo_option_pricing rng S0 K T r sigma n_sims n_steps = Inl ZeroDivisionError)
   \<and> (n_steps \<noteq> 0 \<and> (n_steps < 0 \<or> n_sims < 0) \<longrightarrow>
      monte_carlo_option_pricing rng S0 K T r sigma n_sims n_steps = Inl ValueError)
   \<and> (0 < n_steps \<and> n_sims = 0 \<longrightarrow>
      monte_carlo_option_pricing rng S0 K T r sigma n_sims n_steps
        = Inr \<lparr>option_price = None, std_error = None, confidence_interval_95 = None,
                simulations = 0, terminal_prices = []\<rparr>)"
  using mc_run_errors [where n_steps = n_steps and n_sims = n_sims and rng = rng and ?S0.0 = S0
      and K = K and T = T and r = r and sigma = sigma]
    mc_run_no_paths [where n_steps = n_steps and rng = rng and ?S0.0 = S0
      and K = K and T = T and r = r and sigma = sigma]
  by blast

theorem invalid_counts_witness:
  "monte_carlo_option_pricing zero_draws 100 105 1 (5 / 100) (2 / 10) 10 0 = Inl ZeroDivisionError
   \<and> monte_carlo_option_pricing zero_draws 100 105 1 (5 / 100) (2 / 10) (- 3) 252 = Inl ValueError
   \<and> monte_carlo_option_pricing zero_draws 100 105 1 (5 / 100) (2 / 10) 10 (- 1) = Inl ValueError
   \<and> monte_carlo_option_pricing zero_draws 100 105 1 (5 / 100) (2 / 10) 0 3
        = Inr \<lparr>option_price = None, std_error = None, confidence_interval_95 = None,
                simulations = 0, terminal_prices = []\<rparr>"
  using invalid_counts [where n_steps = 0 and n_sims = 10 and rng = zero_draws and ?S0.0 = 100
      and K = 105 and T = 1 and r = "5 / 100" and sigma = "2 / 10"]
    invalid_counts [where n_steps = 252 and n_sims = "- 3" and rng = zero_draws and ?S0.0 = 100
      and K = 105 and T = 1 and r = "5 / 100" and sigma = "2 / 10"]
    invalid_counts [where n_steps = "- 1" and n_sims = 10 and rng = zero_draws and ?S0.0 = 100
      and K = 105 and T = 1 and r = "5 / 100" and sigma = "2 / 10"]
    invalid_counts [where n_steps = 3 and n_sims = 0 and rng = zero_draws and ?S0.0 = 100
      and K = 105 and T = 1 and r = "5 / 100" and sigma = "2 / 10"]
  by simp

text \<open>
  With \<^verbatim>\<open>n_sims = 0\<close> and the 252 time steps of the module the simulator returns a
  result instead of failing.
\<close>

theorem no_failure_without_paths:
  "monte_carlo_option_pricing zero_draws 100 105 1 (5 / 100) (2 / 10) 0 252
      = Inr \<lparr>option_price = None, std_error = None, confidence_interval_95 = None,
              simulations = 0, terminal_prices = []\<rparr>"
  by (simp add: mc_run_no_paths)

text \<open>
  C9. The standard error is computed with the population standard deviation of the
  payoffs: the square root of the sum of the squared deviations from the mean divided
  by the number of paths (not by one less), over the square root of the number of paths.
\<close>

theorem standard_error_population:
  assumes "0 < n_steps" and "0 < n_sims" and "0 \<le> T"
  shows "\<exists>res payoffs.
       monte_carlo_option_pricing rng S0 K T r sigma n_sims n_steps = Inr res
     \<and> mc_payoffs K (terminal_prices res) = map Some payoffs
     \<and> int (length payoffs) = n_sims
     \<and> std_error res =
         Some (sqrt ((\<Sum>p\<leftarrow>payoffs. (p - sum_list payoffs / real (length payoffs)) ^ 2)
                      / real (length payoffs))
               / sqrt (real (length payoffs)))"
proof -
  let ?pay = "\<lambda>j. max (terminal_price_closed_form rng S0 T r sigma n_steps j - K) 0"
  let ?payoffs = "map ?pay [0..<nat n_sims]"
  have n: "0 \<le> n_sims" using assms by simp
  have ne: "[0..<nat n_sims] \<noteq> []" using assms by simp
  have len: "real (length ?payoffs) = real_of_int n_sims"
    using assms by simp
  obtain res where run: "monte_carlo_option_pricing rng S0 K T r sigma n_sims n_steps = Inr res"
    and se: "std_error res = lift2 (/) (np_std (map (\<lambda>j. Some (?pay j)) [0..<nat n_sims]))
        (Some (sqrt (real_of_int n_sims)))"
    and ST: "terminal_prices res
        = map (\<lambda>j. Some (terminal_price_closed_form rng S0 T r sigma n_steps j)) [0..<nat n_sims]"
    using mc_run_numbers [OF assms(1) n assms(3), of rng S0 K r sigma] by simp
  have A: "mc_payoffs K (terminal_prices res) = map Some ?payoffs"
    unfolding ST by (simp add: mc_payoffs_numbers)
  have B: "int (length ?payoffs) = n_sims"
    using assms by simp
  have C: "std_error res
      = Some (sqrt ((\<Sum>p\<leftarrow>?payoffs. (p - sum_list ?payoffs / real (length ?payoffs)) ^ 2)
                      / real (length ?payoffs))
               / sqrt (real (length ?payoffs)))"
    unfolding se np_std_numbers len using ne by (simp add: lift2_def)
  from run A B C show ?thesis by blast
qed

theorem standard_error_population_witness:
  "\<exists>res. monte_carlo_option_pricing example_draws 100 50 1 (1 / 2) 1 2 1 = Inr res
     \<and> mc_payoffs 50 (terminal_prices res) = map Some [50, 150]
     \<and> std_error res = Some (50 / sqrt 2)"
proof -
  obtain res payoffs where
    run: "monte_carlo_option_pricing example_draws 100 50 1 (1 / 2) 1 2 1 = Inr res"
    and pay: "mc_payoffs 50 (terminal_prices res) = map Some payoffs"
    and se: "std_error res =
         Some (sqrt ((\<Sum>p\<leftarrow>payoffs. (p - sum_list payoffs / real (length payoffs)) ^ 2)
                      / real (length payoffs))
               / sqrt (real (length payoffs)))"
    using standard_error_population [where n_steps = 1 and n_sims = 2 and T = 1
      and rng = example_draws and ?S0.0 = 100 and K = 50 and r = "1 / 2" and sigma = 1]
    by auto
  have "terminal_prices res = [Some 100, Some 200]"
    using run unfolding mc_run_example by auto
  then have "map Some payoffs = map Some [50, 150]"
    using pay by (simp add: mc_payoffs_def lift2_def)
  then have "payoffs = [50, 150]"
    by (auto simp add: map_eq_Cons_conv)
  with se have "std_error res = Some (50 / sqrt 2)"
    by (simp add: sqrt_2500)
  with run pay \<open>payoffs = [50, 150]\<close> show ?thesis
    by auto
qed

section \<open>The benchmark\<close>

lemma take_table: "take r (table f n m) = table f (min r n) m"
  by (simp add: table_def take_map min_def)

lemma map_take_table: "map (take c) (table f n m) = table f n (min c m)"
  by (simp add: table_def take_map min_def)

lemma leading_table: "leading r c (table f n m) = table f (min r n) (min c m)"
  by (simp add: leading_def take_table map_take_table)

lemma set_table: "row \<in> set (table f n m) \<Longrightarrow> length row = m"
  by (auto simp add: table_def)

lemma dot_randn:
  assumes "0 < n"
  shows "dot (randn a n n) (randn b n n)
     = table (\<lambda>i j. sum_list (map (\<lambda>k. randn a n n ! i ! k * randn b n n ! k ! j) [0..<n])) n n"
proof -
  have ne: "randn b n n \<noteq> []"
    using assms by (auto simp add: randn_def table_def)
  have hd: "length (hd (randn b n n)) = n"
    using assms by (simp add: randn_def table_def hd_map upt_conv_Cons)
  show ?thesis
    unfolding dot_def using ne hd by (simp add: randn_def length_table)
qed

lemma dot_randn_nth:
  assumes "i < n" and "j < n"
  shows "sum_list (map (\<lambda>k. randn a n n ! i ! k * randn b n n ! k ! j) [0..<n])
     = (\<Sum>k<n. a i k * b k j)"
proof -
  have "map (\<lambda>k. randn a n n ! i ! k * randn b n n ! k ! j) [0..<n]
      = map (\<lambda>k. a i k * b k j) [0..<n]"
    using assms by (intro map_cong) (simp_all add: randn_def nth_table)
  then show ?thesis
    by (simp only: sum_list_upt)
qed

lemma leading_dot_randn:
  assumes "0 < n" and "r \<le> n"
  shows "length (leading r r (dot (randn a n n) (randn b n n))) = r"
    and "\<forall>row\<in>set (leading r r (dot (randn a n n) (randn b n n))). length row = r"
    and "\<forall>i<r. \<forall>j<r. leading r r (dot (randn a n n) (randn b n n)) ! i ! j = (\<Sum>k<n. a i k * b k j)"
proof -
  let ?f = "\<lambda>i j. sum_list (map (\<lambda>k. randn a n n ! i ! k * randn b n n ! k ! j) [0..<n])"
  have eq: "leading r r (dot (randn a n n) (randn b n n)) = table ?f r r"
    unfolding dot_randn [OF assms(1)] leading_table using assms(2) by (simp add: min_def)
  show "length (leading r r (dot (randn a n n) (randn b n n))) = r"
    unfolding eq by (rule length_table)
  show "\<forall>row\<in>set (leading r r (dot (randn a n n) (randn b n n))). length row = r"
    unfolding eq by (auto dest: set_table)
  show "\<forall>i<r. \<forall>j<r. leading r r (dot (randn a n n) (randn b n n)) ! i ! j = (\<Sum>k<n. a i k * b k j)"
    unfolding eq using assms(2) by (auto simp add: nth_table dot_randn_nth)
qed

lemma Max_cmod_nonneg: "ev \<noteq> [] \<Longrightarrow> 0 \<le> Max (set (map cmod ev))"
proof -
  assume ne: "ev \<noteq> []"
  then have "Max (set (map cmod ev)) \<in> set (map cmod ev)"
    by (intro Max_in) simp_all
  then show ?thesis by auto
qed

text \<open>
  C8. The benchmark draws two square matrices of size 5000, multiplies them and hands
  the leading 1000 by 1000 block of the product to the eigenvalue routine; it reports
  the largest modulus of the eigenvalues returned, which is never negative. The
  eigenvalue routine is numpy's: the theorem takes from it only that it returns as
  many eigenvalues as the matrix has rows.
\<close>

theorem benchmark_max_eigenvalue:
  assumes "\<And>M. length (eigvals M) = length M"
  shows "\<exists>res. matrix_computation_benchmark rngA rngB eigvals = Inr res
     \<and> matrix_size res = 5000
     \<and> length (randn rngA 5000 5000) = 5000
     \<and> (\<forall>row\<in>set (randn rngA 5000 5000). length row = 5000)
     \<and> length (randn rngB 5000 5000) = 5000
     \<and> (\<forall>row\<in>set (randn rngB 5000 5000). length row = 5000)
     \<and> (let sub = leading 1000 1000 (dot (randn rngA 5000 5000) (randn rngB 5000 5000))
        in length sub = 1000
         \<and> (\<forall>row\<in>set sub. length row = 1000)
         \<and> (\<forall>i<1000. \<forall>j<1000. sub ! i ! j = (\<Sum>k<5000. rngA i k * rngB k j))
         \<and> length (eigvals sub) = 1000
         \<and> max_eigenvalue res = Max (set (map cmod (eigvals sub))))
     \<and> 0 \<le> max_eigenvalue res"
proof -
  let ?sub = "leading 1000 1000 (dot (randn rngA 5000 5000) (randn rngB 5000 5000))"
  note shape = leading_dot_randn [of 5000 1000 rngA rngB]
  have len: "length ?sub = 1000"
    by (rule shape) simp_all
  have rows: "\<forall>row\<in>set ?sub. length row = 1000"
    by (rule shape) simp_all
  have entries: "\<forall>i<1000. \<forall>j<1000. ?sub ! i ! j = (\<Sum>k<5000. rngA i k * rngB k j)"
    by (rule shape) simp_all
  have ev: "length (eigvals ?sub) = 1000"
    using assms len by simp
  then have ne: "eigvals ?sub \<noteq> []"
    by auto
  have run: "matrix_computation_benchmark rngA rngB eigvals
      = Inr \<lparr>matrix_size = 5000, max_eigenvalue = Max (set (map cmod (eigvals ?sub)))\<rparr>"
    unfolding matrix_computation_benchmark_def Let_def using ne by simp
  have square: "length (randn rng 5000 5000) = 5000
      \<and> (\<forall>row\<in>set (randn rng 5000 5000). length row = 5000)" for rng
    unfolding randn_def by (auto simp add: length_table dest: set_table)
  show ?thesis
    unfolding run Let_def
    using len rows entries ev Max_cmod_nonneg [OF ne] square [of rngA] square [of rngB] by simp
qed

theorem benchmark_max_eigenvalue_witness:
  "\<exists>res. matrix_computation_benchmark zero_draws zero_draws zero_eigvals = Inr res
     \<and> matrix_size res = 5000 \<and> 0 \<le> max_eigenvalue res"
proof -
  have "length (zero_eigvals M) = length M" for M
    by (simp add: zero_eigvals_def)
  from benchmark_max_eigenvalue [of zero_eigvals zero_draws zero_draws, OF this]
  show ?thesis by blast
qed

section \<open>The value of the analytical price\<close>

text \<open>
  Bounds for the series of the normal distribution function (an alternating series
  for arguments between 0 and 1), for \<open>ln (21 / 20)\<close> and \<open>exp (- 1 / 20)\<close> (Taylor's
  theorem) and for \<open>pi\<close> (Machin's formula), and from them an enclosure of the price.
\<close>

lemma alternating_odd_powers:
  fixes c :: "nat \<Rightarrow> real" and x :: real
  assumes "0 \<le> x" and "x \<le> 1"
    and c_pos: "\<And>n. 0 \<le> c n"
    and c_mono: "\<And>n. c (Suc n) \<le> c n"
    and c_zero: "c \<longlonglongrightarrow> 0"
  shows "summable (\<lambda>n. (- 1) ^ n * (c n * x ^ (2 * n + 1)))"
    and "(\<Sum>i<2 * n. (- 1) ^ i * (c i * x ^ (2 * i + 1))) \<le> (\<Sum>i. (- 1) ^ i * (c i * x ^ (2 * i + 1)))"
    and "(\<Sum>i. (- 1) ^ i * (c i * x ^ (2 * i + 1))) \<le> (\<Sum>i<2 * n + 1. (- 1) ^ i * (c i * x ^ (2 * i + 1)))"
proof -
  let ?a = "\<lambda>n. c n * x ^ (2 * n + 1)"
  have pos: "0 \<le> ?a n" for n
    using assms(1) c_pos by simp
  have le_c: "?a n \<le> c n" for n
  proof -
    have "x ^ (2 * n + 1) \<le> 1"
      using assms(1,2) by (rule power_le_one)
    then have "c n * x ^ (2 * n + 1) \<le> c n * 1"
      using c_pos by (intro mult_left_mono)
    then show ?thesis by simp
  qed
  have zero: "?a \<longlonglongrightarrow> 0"
  proof (rule tendsto_sandwich [OF _ _ tendsto_const c_zero])
    show "\<forall>\<^sub>F n in sequentially. 0 \<le> ?a n"
      using pos by (intro always_eventually allI)
    show "\<forall>\<^sub>F n in sequentially. ?a n \<le> c n"
      using le_c by (intro always_eventually allI)
  qed
  have mono: "?a (Suc n) \<le> ?a n" for n
  proof -
    have "x ^ (2 * Suc n + 1) \<le> x ^ (2 * n + 1)"
      using assms(1,2) by (intro power_decreasing) simp_all
    then show ?thesis
      using c_mono [of n] c_pos assms(1) by (intro mult_mono) simp_all
  qed
  note leibniz = summable_Leibniz' [of ?a, OF zero pos mono]
  show "summable (\<lambda>n. (- 1) ^ n * ?a n)"
    by (rule leibniz(1))
  show "(\<Sum>i<2 * n. (- 1) ^ i * ?a i) \<le> (\<Sum>i. (- 1) ^ i * ?a i)"
    by (rule leibniz(2))
  show "(\<Sum>i. (- 1) ^ i * ?a i) \<le> (\<Sum>i<2 * n + 1. (- 1) ^ i * ?a i)"
    by (rule leibniz(4))
qed

lemma norm_cdf_coeff_pos: "0 \<le> norm_cdf_coeff n"
  by (simp add: norm_cdf_coeff_def)

lemma norm_cdf_coeff_mono: "norm_cdf_coeff (Suc n) \<le> norm_cdf_coeff n"
proof -
  have "(2 :: real) ^ n * fact n * real (2 * n + 1) \<le> 2 ^ Suc n * fact (Suc n) * real (2 * Suc n + 1)"
    by (intro mult_mono) (simp_all add: fact_mono)
  moreover have "0 < (2 :: real) ^ n * fact n * real (2 * n + 1)"
    by simp
  ultimately show ?thesis
    unfolding norm_cdf_coeff_def by (intro divide_left_mono) simp_all
qed

lemma norm_cdf_coeff_le: "norm_cdf_coeff n \<le> inverse (real (Suc n))"
proof -
  have "1 * 1 * real (Suc n) \<le> (2 :: real) ^ n * fact n * real (2 * n + 1)"
    by (intro mult_mono) simp_all
  then have "1 / ((2 :: real) ^ n * fact n * real (2 * n + 1)) \<le> 1 / real (Suc n)"
    by (intro divide_left_mono) simp_all
  then show ?thesis
    by (simp add: norm_cdf_coeff_def inverse_eq_divide)
qed

lemma norm_cdf_coeff_zero: "norm_cdf_coeff \<longlonglongrightarrow> 0"
proof (rule tendsto_sandwich [OF _ _ tendsto_const LIMSEQ_inverse_real_of_nat])
  show "\<forall>\<^sub>F n in sequentially. 0 \<le> norm_cdf_coeff n"
    using norm_cdf_coeff_pos by (intro always_eventually allI)
  show "\<forall>\<^sub>F n in sequentially. norm_cdf_coeff n \<le> inverse (real (Suc n))"
    using norm_cdf_coeff_le by (intro always_eventually allI)
qed

lemma norm_cdf_series_bounds:
  assumes "0 \<le> x" and "x \<le> 1"
  shows "x - x ^ 3 / 6 \<le> norm_cdf_series x"
    and "norm_cdf_series x \<le> x - x ^ 3 / 6 + x ^ 5 / 40"
proof -
  note alt = alternating_odd_powers [OF assms, of norm_cdf_coeff,
      OF norm_cdf_coeff_pos norm_cdf_coeff_mono norm_cdf_coeff_zero]
  have two: "(\<Sum>i<2 * 1. (- 1) ^ i * (norm_cdf_coeff i * x ^ (2 * i + 1))) = x - x ^ 3 / 6"
    by (simp add: norm_cdf_coeff_def numeral_eq_Suc)
  have three: "(\<Sum>i<2 * 1 + 1. (- 1) ^ i * (norm_cdf_coeff i * x ^ (2 * i + 1)))
      = x - x ^ 3 / 6 + x ^ 5 / 40"
    by (simp add: norm_cdf_coeff_def numeral_eq_Suc)
  show "x - x ^ 3 / 6 \<le> norm_cdf_series x"
    using alt(2) [of 1] unfolding two norm_cdf_series_def .
  show "norm_cdf_series x \<le> x - x ^ 3 / 6 + x ^ 5 / 40"
    using alt(3) [of 1] unfolding three norm_cdf_series_def .
qed

lemma norm_cdf_series_odd:
  assumes "0 \<le> x" and "x \<le> 1"
  shows "norm_cdf_series (- x) = - norm_cdf_series x"
proof -
  have sm: "summable (\<lambda>n. (- 1) ^ n * (norm_cdf_coeff n * x ^ (2 * n + 1)))"
    by (rule alternating_odd_powers(1) [OF assms norm_cdf_coeff_pos norm_cdf_coeff_mono norm_cdf_coeff_zero])
  have "(- 1) ^ n * (norm_cdf_coeff n * (- x) ^ (2 * n + 1))
      = - ((- 1) ^ n * (norm_cdf_coeff n * x ^ (2 * n + 1)))" for n
    by simp
  then have "norm_cdf_series (- x) = (\<Sum>n. - ((- 1) ^ n * (norm_cdf_coeff n * x ^ (2 * n + 1))))"
    unfolding norm_cdf_series_def by simp
  also have "\<dots> = - norm_cdf_series x"
    unfolding norm_cdf_series_def by (rule suminf_minus [OF sm])
  finally show ?thesis .
qed

lemma norm_cdf_series_interval:
  assumes "0 \<le> lo" and "lo \<le> x" and "x \<le> hi" and "hi \<le> 1"
  shows "lo - hi ^ 3 / 6 \<le> norm_cdf_series x"
    and "norm_cdf_series x \<le> hi - lo ^ 3 / 6 + hi ^ 5 / 40"
proof -
  have x: "0 \<le> x" "x \<le> 1"
    using assms by simp_all
  have p3: "x ^ 3 \<le> hi ^ 3" and p5: "x ^ 5 \<le> hi ^ 5"
    using x(1) assms(3) by (simp_all add: power_mono)
  have q3: "lo ^ 3 \<le> x ^ 3"
    using assms(1,2) by (simp add: power_mono)
  show "lo - hi ^ 3 / 6 \<le> norm_cdf_series x"
    using norm_cdf_series_bounds(1) [OF x] assms(2) p3 by linarith
  show "norm_cdf_series x \<le> hi - lo ^ 3 / 6 + hi ^ 5 / 40"
    using norm_cdf_series_bounds(2) [OF x] assms(3) q3 p5 by linarith
qed

lemma exp_small_le_2:
  fixes t :: real
  assumes "\<bar>t\<bar> \<le> 1 / 20"
  shows "exp t \<le> 2"
proof -
  have "exp t \<le> exp (1 / 20)"
    using assms by simp
  also have "exp (1 / 20 :: real) \<le> 1 + 1 / 20 + (1 / 20)\<^sup>2"
    by (rule exp_bound) simp_all
  also have "\<dots> \<le> 2"
    by (simp add: power2_eq_square)
  finally show ?thesis .
qed

lemma exp_taylor_bounds:
  fixes x :: real
  assumes "0 \<le> x" and "x \<le> 1 / 20"
  shows "(\<Sum>m<5. x ^ m / fact m) \<le> exp x"
    and "exp x \<le> (\<Sum>m<5. x ^ m / fact m) + 2 / fact 5 * x ^ 5"
proof -
  obtain t where t: "\<bar>t\<bar> \<le> \<bar>x\<bar>"
    and eq: "exp x = (\<Sum>m<5. x ^ m / fact m) + exp t / fact 5 * x ^ 5"
    using Maclaurin_exp_le [of x 5] by blast
  have x5: "0 \<le> x ^ 5"
    using assms(1) by simp
  have "0 \<le> exp t / fact 5 * x ^ 5"
    using x5 by simp
  then show "(\<Sum>m<5. x ^ m / fact m) \<le> exp x"
    unfolding eq by simp
  have "exp t \<le> 2"
    using t assms by (intro exp_small_le_2) simp
  then have "exp t / fact 5 * x ^ 5 \<le> 2 / fact 5 * x ^ 5"
    using x5 by (intro mult_right_mono divide_right_mono) simp_all
  then show "exp x \<le> (\<Sum>m<5. x ^ m / fact m) + 2 / fact 5 * x ^ 5"
    unfolding eq by simp
qed

lemma taylor5: "(\<Sum>m<5. x ^ m / fact m) = 1 + x + x ^ 2 / 2 + x ^ 3 / 6 + x ^ 4 / 24" for x :: real
  by (simp add: numeral_eq_Suc)

lemma ln_21_20_bounds:
  shows "487901 / 10000000 \<le> ln (21 / 20 :: real)"
    and "ln (21 / 20 :: real) \<le> 487902 / 10000000"
proof -
  have "exp (487901 / 10000000 :: real) \<le> 21 / 20"
    using exp_taylor_bounds(2) [of "487901 / 10000000"]
    unfolding taylor5 by (simp add: fact_numeral power_divide)
  moreover have pos: "(0 :: real) < 21 / 20"
    by simp
  ultimately show "487901 / 10000000 \<le> ln (21 / 20 :: real)"
    by (rule iffD2 [OF ln_ge_iff, rotated])
  have "(21 / 20 :: real) \<le> exp (487902 / 10000000)"
    using exp_taylor_bounds(1) [of "487902 / 10000000"]
    unfolding taylor5 by (simp add: power_divide)
  then have "ln (21 / 20 :: real) \<le> ln (exp (487902 / 10000000))"
    by (subst ln_le_cancel_iff) simp_all
  then show "ln (21 / 20 :: real) \<le> 487902 / 10000000"
    by simp
qed

lemma exp_minus_1_20_bounds:
  shows "951229 / 1000000 \<le> exp (- (1 / 20) :: real)"
    and "exp (- (1 / 20) :: real) \<le> 951230 / 1000000"
proof -
  obtain t where t: "\<bar>t\<bar> \<le> \<bar>- (1 / 20) :: real\<bar>"
    and eq: "exp (- (1 / 20) :: real) = (\<Sum>m<4. (- (1 / 20)) ^ m / fact m) + exp t / fact 4 * (- (1 / 20)) ^ 4"
    using Maclaurin_exp_le [of "- (1 / 20)" 4] by blast
  have poly: "(\<Sum>m<4. (- (1 / 20 :: real)) ^ m / fact m) = 45659 / 48000"
    by (simp add: numeral_eq_Suc power_divide)
  have rest: "exp t / fact 4 * (- (1 / 20)) ^ 4 = exp t / 3840000"
    by (simp add: fact_numeral power_divide)
  have "0 \<le> exp t" by simp
  then show "951229 / 1000000 \<le> exp (- (1 / 20) :: real)"
    unfolding eq poly rest by linarith
  have "exp t \<le> 2"
    using t by (intro exp_small_le_2) simp
  then show "exp (- (1 / 20) :: real) \<le> 951230 / 1000000"
    unfolding eq poly rest by linarith
qed

lemma odd_inverse_mono: "1 / real (2 * Suc n + 1) \<le> 1 / real (2 * n + 1)"
  by (intro divide_left_mono) simp_all

lemma odd_inverse_le: "1 / real (2 * n + 1) \<le> inverse (real (Suc n))"
proof -
  have "1 / real (2 * n + 1) \<le> 1 / real (Suc n)"
    by (intro divide_left_mono) simp_all
  then show ?thesis
    by (simp add: inverse_eq_divide)
qed

lemma odd_inverse_zero: "(\<lambda>n. 1 / real (2 * n + 1)) \<longlonglongrightarrow> 0"
proof (rule tendsto_sandwich [OF _ _ tendsto_const LIMSEQ_inverse_real_of_nat])
  show "\<forall>\<^sub>F n in sequentially. 0 \<le> 1 / real (2 * n + 1)"
    by (intro always_eventually allI) simp
  show "\<forall>\<^sub>F n in sequentially. 1 / real (2 * n + 1) \<le> inverse (real (Suc n))"
    using odd_inverse_le by (intro always_eventually allI)
qed

lemma arctan_bounds:
  assumes "0 \<le> x" and "x \<le> 1"
  shows "(\<Sum>i<2 * n. (- 1) ^ i * (1 / real (2 * i + 1) * x ^ (2 * i + 1))) \<le> arctan x"
    and "arctan x \<le> (\<Sum>i<2 * n + 1. (- 1) ^ i * (1 / real (2 * i + 1) * x ^ (2 * i + 1)))"
proof -
  have "arctan x = (\<Sum>k. (- 1) ^ k * (1 / real (k * 2 + 1) * x ^ (k * 2 + 1)))"
    using assms by (intro arctan_series) simp
  then have series: "arctan x = (\<Sum>k. (- 1) ^ k * (1 / real (2 * k + 1) * x ^ (2 * k + 1)))"
    by (simp add: mult.commute)
  note alt = alternating_odd_powers [OF assms, of "\<lambda>n. 1 / real (2 * n + 1)",
      OF _ odd_inverse_mono odd_inverse_zero]
  show "(\<Sum>i<2 * n. (- 1) ^ i * (1 / real (2 * i + 1) * x ^ (2 * i + 1))) \<le> arctan x"
    unfolding series by (rule alt(2)) simp
  show "arctan x \<le> (\<Sum>i<2 * n + 1. (- 1) ^ i * (1 / real (2 * i + 1) * x ^ (2 * i + 1)))"
    unfolding series by (rule alt(3)) simp
qed

lemma pi_bounds:
  shows "314159 / 100000 \<le> pi" and "pi \<le> 314160 / 100000"
proof -
  have a5_lo: "(\<Sum>i<2 * 2. (- 1) ^ i * (1 / real (2 * i + 1) * (1 / 5) ^ (2 * i + 1))) \<le> arctan (1 / 5)"
    by (rule arctan_bounds) simp_all
  have a5_hi: "arctan (1 / 5) \<le> (\<Sum>i<2 * 2 + 1. (- 1) ^ i * (1 / real (2 * i + 1) * (1 / 5) ^ (2 * i + 1)))"
    by (rule arctan_bounds) simp_all
  have a239_lo: "(\<Sum>i<2 * 1. (- 1) ^ i * (1 / real (2 * i + 1) * (1 / 239) ^ (2 * i + 1))) \<le> arctan (1 / 239)"
    by (rule arctan_bounds) simp_all
  have a239_hi: "arctan (1 / 239) \<le> (\<Sum>i<2 * 0 + 1. (- 1) ^ i * (1 / real (2 * i + 1) * (1 / 239) ^ (2 * i + 1)))"
    by (rule arctan_bounds) simp_all
  have v1: "(\<Sum>i<2 * 2. (- 1) ^ i * (1 / real (2 * i + 1) * (1 / 5) ^ (2 * i + 1)))
      = (1 / 5 - 1 / 375 + 1 / 15625 - 1 / 546875 :: real)"
    by (simp add: numeral_eq_Suc power_divide)
  have v2: "(\<Sum>i<2 * 2 + 1. (- 1) ^ i * (1 / real (2 * i + 1) * (1 / 5) ^ (2 * i + 1)))
      = (1 / 5 - 1 / 375 + 1 / 15625 - 1 / 546875 + 1 / 17578125 :: real)"
    by (simp add: numeral_eq_Suc power_divide)
  have v3: "(\<Sum>i<2 * 1. (- 1) ^ i * (1 / real (2 * i + 1) * (1 / 239) ^ (2 * i + 1)))
      = (1 / 239 - 1 / 40955757 :: real)"
    by (simp add: numeral_eq_Suc power_divide)
  have v4: "(\<Sum>i<2 * 0 + 1. (- 1) ^ i * (1 / real (2 * i + 1) * (1 / 239) ^ (2 * i + 1)))
      = (1 / 239 :: real)"
    by simp
  have m: "pi = 16 * arctan (1 / 5) - 4 * arctan (1 / 239)"
    using machin by simp
  show "314159 / 100000 \<le> pi"
    using a5_lo a239_hi unfolding v1 v4 m by linarith
  show "pi \<le> 314160 / 100000"
    using a5_hi a239_lo unfolding v2 v3 m by linarith
qed

lemma sqrt_2pi_bounds:
  shows "250662 / 100000 \<le> sqrt (2 * pi)" and "sqrt (2 * pi) \<le> 250664 / 100000"
proof -
  have "(250662 / 100000 :: real)\<^sup>2 \<le> 2 * pi"
    using pi_bounds(1) by (simp add: power2_eq_square)
  then show "250662 / 100000 \<le> sqrt (2 * pi)"
    by (rule real_le_rsqrt)
  have "2 * pi \<le> (250664 / 100000 :: real)\<^sup>2"
    using pi_bounds(2) by (simp add: power2_eq_square)
  then show "sqrt (2 * pi) \<le> 250664 / 100000"
    by (intro real_le_lsqrt) simp_all
qed

lemma analytical_price_eq:
  "analytical_price =
     100 * norm_cdf (5 * (7 / 100 - ln (21 / 20)))
       - 105 * exp (- (1 / 20)) * norm_cdf (5 * (7 / 100 - ln (21 / 20)) - 1 / 5)"
proof -
  have "ln (100 / 105 :: real) = ln (inverse (21 / 20))"
    by simp
  also have "\<dots> = - ln (21 / 20 :: real)"
    by (rule ln_inverse)
  finally have l: "ln (100 / 105 :: real) = - ln (21 / 20)" .
  have d1: "(ln (100 / 105 :: real) + (5 / 100 + 5 / 10 * (2 / 10) ^ 2) * 1) / (2 / 10 * sqrt 1)
      = 5 * (7 / 100 - ln (21 / 20))"
    unfolding l by (simp add: power2_eq_square field_simps)
  show ?thesis
    unfolding analytical_price_def Let_def
    using d1 by simp
qed

lemma inverse_sqrt_2pi_bounds:
  shows "100000 / 250664 \<le> 1 / sqrt (2 * pi)" and "1 / sqrt (2 * pi) \<le> 100000 / 250662"
proof -
  have pos: "0 < sqrt (2 * pi)"
    by simp
  have "1 / (250664 / 100000) \<le> 1 / sqrt (2 * pi)"
    using sqrt_2pi_bounds(2) pos by (intro divide_left_mono) simp_all
  then show "100000 / 250664 \<le> 1 / sqrt (2 * pi)"
    by simp
  have "1 / sqrt (2 * pi) \<le> 1 / (250662 / 100000)"
    using sqrt_2pi_bounds(1) pos by (intro divide_left_mono) simp_all
  then show "1 / sqrt (2 * pi) \<le> 100000 / 250662"
    by simp
qed

lemma analytical_price_bounds:
  shows "80211 / 10000 \<le> analytical_price" and "analytical_price \<le> 80217 / 10000"
proof -
  define d :: real where "d = 5 * (7 / 100 - ln (21 / 20))"
  define y :: real where "y = 1 / 5 - d"
  define c :: real where "c = 1 / sqrt (2 * pi)"
  define E :: real where "E = exp (- (1 / 20))"
  define S1 where "S1 = norm_cdf_series d"
  define S2 where "S2 = norm_cdf_series y"
  have d_lo: "106049 / 1000000 \<le> d"
    using ln_21_20_bounds(2) unfolding d_def by simp
  have d_hi: "d \<le> 1060495 / 10000000"
    using ln_21_20_bounds(1) unfolding d_def by simp
  note d = d_lo d_hi
  have y_lo: "939505 / 10000000 \<le> y"
    using d_hi unfolding y_def by linarith
  have y_hi: "y \<le> 93951 / 1000000"
    using d_lo unfolding y_def by linarith
  note y = y_lo y_hi
  have c: "100000 / 250664 \<le> c" "c \<le> 100000 / 250662"
    unfolding c_def by (rule inverse_sqrt_2pi_bounds)+
  have E: "951229 / 1000000 \<le> E" "E \<le> 951230 / 1000000"
    unfolding E_def by (rule exp_minus_1_20_bounds)+
  have "(106049 / 1000000 :: real) - (1060495 / 10000000) ^ 3 / 6 \<le> S1"
    unfolding S1_def by (rule norm_cdf_series_interval(1) [OF _ d]) simp_all
  then have S1_lo: "105850 / 1000000 \<le> S1"
    by (simp add: power_divide)
  have "S1 \<le> (1060495 / 10000000 :: real) - (106049 / 1000000) ^ 3 / 6 + (1060495 / 10000000) ^ 5 / 40"
    unfolding S1_def by (rule norm_cdf_series_interval(2) [OF _ d]) simp_all
  then have S1_hi: "S1 \<le> 105852 / 1000000"
    by (simp add: power_divide)
  have "(939505 / 10000000 :: real) - (93951 / 1000000) ^ 3 / 6 \<le> S2"
    unfolding S2_def by (rule norm_cdf_series_interval(1) [OF _ y]) simp_all
  then have S2_lo: "93812 / 1000000 \<le> S2"
    by (simp add: power_divide)
  have "S2 \<le> (93951 / 1000000 :: real) - (939505 / 10000000) ^ 3 / 6 + (93951 / 1000000) ^ 5 / 40"
    unfolding S2_def by (rule norm_cdf_series_interval(2) [OF _ y]) simp_all
  then have S2_hi: "S2 \<le> 93813 / 1000000"
    by (simp add: power_divide)
  have "951229 / 1000000 * (93812 / 1000000) \<le> E * S2"
    using E(1) S2_lo by (intro mult_mono) simp_all
  then have X_lo: "199548 / 10000 \<le> 100 * S1 + 105 * (E * S2)"
    using S1_lo by linarith
  have "E * S2 \<le> 951230 / 1000000 * (93813 / 1000000)"
    using E S2_lo S2_hi by (intro mult_mono) simp_all
  then have X_hi: "100 * S1 + 105 * (E * S2) \<le> 199552 / 10000"
    using S1_hi by linarith
  have cX_lo: "100000 / 250664 * (199548 / 10000) \<le> c * (100 * S1 + 105 * (E * S2))"
    using c(1) X_lo by (intro mult_mono) simp_all
  have cX_hi: "c * (100 * S1 + 105 * (E * S2)) \<le> 100000 / 250662 * (199552 / 10000)"
    using c X_lo X_hi by (intro mult_mono) simp_all
  have y_range: "0 \<le> y" "y \<le> 1"
    using y by simp_all
  have "norm_cdf (d - 1 / 5) = norm_cdf (- y)"
    unfolding y_def by simp
  also have "\<dots> = 1 / 2 - c * S2"
    unfolding norm_cdf_def norm_cdf_series_odd [OF y_range] c_def S2_def by simp
  finally have Phi2: "norm_cdf (d - 1 / 5) = 1 / 2 - c * S2" .
  have Phi1: "norm_cdf d = 1 / 2 + c * S1"
    unfolding norm_cdf_def c_def S1_def by simp
  have "analytical_price = 100 * norm_cdf d - 105 * E * norm_cdf (d - 1 / 5)"
    unfolding d_def E_def by (rule analytical_price_eq)
  also have "\<dots> = 50 - 105 / 2 * E + c * (100 * S1 + 105 * (E * S2))"
    unfolding Phi1 Phi2 by (simp add: algebra_simps)
  finally have price: "analytical_price = 50 - 105 / 2 * E + c * (100 * S1 + 105 * (E * S2))" .
  show "80211 / 10000 \<le> analytical_price"
    unfolding price using E(2) cX_lo by linarith
  show "analytical_price \<le> 80217 / 10000"
    unfolding price using E(1) cX_hi by linarith
qed

section \<open>The normal distribution function\<close>

text \<open>
  The function \<open>norm_cdf\<close> is the distribution function of the standard normal law:
  it is \<open>1/2\<close> at \<open>0\<close> and its derivative is the standard normal density
  \<open>exp (- x\<^sup>2 / 2) / sqrt (2 pi)\<close> everywhere.
\<close>

lemma gauss_term: "(- (x\<^sup>2 / 2)) ^ k /\<^sub>R fact k = (- 1) ^ k * x ^ (2 * k) / (2 ^ k * fact k)"
  for x :: real
proof -
  have "(- (x\<^sup>2 / 2)) ^ k = (- 1) ^ k * (x\<^sup>2 / 2) ^ k"
    by (rule power_minus)
  also have "(x\<^sup>2 / 2) ^ k = (x\<^sup>2) ^ k / 2 ^ k"
    by (rule power_divide)
  also have "(x\<^sup>2) ^ k = x ^ (2 * k)"
    by (rule power_mult [symmetric])
  finally have "(- (x\<^sup>2 / 2)) ^ k = (- 1) ^ k * (x ^ (2 * k) / 2 ^ k)" .
  then have "(- (x\<^sup>2 / 2)) ^ k /\<^sub>R fact k = (- 1) ^ k * (x ^ (2 * k) / 2 ^ k) / fact k"
    by (simp only: real_scaleR_def divide_inverse mult.commute)
  then show ?thesis
    by (simp only: times_divide_eq_right divide_divide_eq_left)
qed

lemma gauss_series: "(\<lambda>k. (- 1) ^ k * x ^ (2 * k) / (2 ^ k * fact k)) sums exp (- (x\<^sup>2 / 2))"
  for x :: real
  using exp_converges [of "- (x\<^sup>2 / 2)"] unfolding gauss_term .

lemma norm_cdf_coeff_odd: "norm_cdf_coeff k * real (Suc (2 * k)) = 1 / (2 ^ k * fact k)"
  by (simp add: norm_cdf_coeff_def)

lemma density_term:
  "norm_cdf_power_coeff n * real (Suc n) * x ^ n
     = (if even n then (- 1) ^ (n div 2) * x ^ (2 * (n div 2)) / (2 ^ (n div 2) * fact (n div 2)) else 0)"
proof (cases "even n")
  case True
  then obtain k where k: "n = 2 * k"
    by (auto elim: evenE)
  have "(- 1) ^ k * norm_cdf_coeff k * real (Suc (2 * k)) * x ^ (2 * k)
      = (- 1) ^ k * (norm_cdf_coeff k * real (Suc (2 * k))) * x ^ (2 * k)"
    by (simp only: mult.assoc)
  also have "\<dots> = (- 1) ^ k * (1 / (2 ^ k * fact k)) * x ^ (2 * k)"
    by (simp only: norm_cdf_coeff_odd)
  also have "\<dots> = (- 1) ^ k * x ^ (2 * k) / (2 ^ k * fact k)"
    by simp
  finally show ?thesis
    unfolding k norm_cdf_power_coeff_def by simp
next
  case False
  then show ?thesis
    by (simp add: norm_cdf_power_coeff_def)
qed

lemma density_series:
  "(\<lambda>n. norm_cdf_power_coeff n * real (Suc n) * x ^ n) sums exp (- (x\<^sup>2 / 2))"
proof -
  have zero: "(\<lambda>n :: nat. 0 :: real) sums 0"
    by (rule sums_zero)
  have "(\<lambda>n. if even n then (- 1) ^ (n div 2) * x ^ (2 * (n div 2)) / (2 ^ (n div 2) * fact (n div 2)) else 0)
      sums (0 + exp (- (x\<^sup>2 / 2)))"
    by (rule sums_if [OF zero gauss_series])
  then show ?thesis
    unfolding density_term by simp
qed

lemma norm_cdf_coeff_le_gauss: "norm_cdf_coeff k \<le> 1 / (2 ^ k * fact k)"
proof -
  have "(2 :: real) ^ k * fact k * 1 \<le> 2 ^ k * fact k * real (2 * k + 1)"
    by (intro mult_left_mono) simp_all
  then show ?thesis
    unfolding norm_cdf_coeff_def by (intro divide_left_mono) simp_all
qed

lemma norm_cdf_series_summable:
  "summable (\<lambda>k. (- 1) ^ k * (norm_cdf_coeff k * x ^ (2 * k + 1)))"
proof (rule summable_comparison_test')
  let ?g = "\<lambda>k. \<bar>x\<bar> * (inverse (fact k) * (x\<^sup>2 / 2) ^ k)"
  show "summable ?g"
    by (intro summable_mult summable_exp)
  fix k :: nat
  have pw: "\<bar>x ^ (2 * k + 1)\<bar> = \<bar>x\<bar> * (x\<^sup>2) ^ k"
    by (simp add: power_mult abs_mult power_abs)
  have "norm ((- 1) ^ k * (norm_cdf_coeff k * x ^ (2 * k + 1)))
      = norm_cdf_coeff k * \<bar>x ^ (2 * k + 1)\<bar>"
    using norm_cdf_coeff_pos [of k] by (simp add: abs_mult power_abs)
  also have "\<dots> = norm_cdf_coeff k * (\<bar>x\<bar> * (x\<^sup>2) ^ k)"
    by (simp only: pw)
  also have "\<dots> \<le> 1 / (2 ^ k * fact k) * (\<bar>x\<bar> * (x\<^sup>2) ^ k)"
    using norm_cdf_coeff_le_gauss [of k] by (intro mult_right_mono) simp_all
  also have "\<dots> = ?g k"
    by (simp add: power_divide field_simps)
  finally show "norm ((- 1) ^ k * (norm_cdf_coeff k * x ^ (2 * k + 1))) \<le> ?g k" .
qed

lemma norm_cdf_power_term:
  "norm_cdf_power_coeff n * x ^ Suc n
     = (if even n then (- 1) ^ (n div 2) * (norm_cdf_coeff (n div 2) * x ^ (2 * (n div 2) + 1)) else 0)"
proof (cases "even n")
  case True
  then obtain k where k: "n = 2 * k"
    by (auto elim: evenE)
  show ?thesis
    unfolding k norm_cdf_power_coeff_def by simp
next
  case False
  then show ?thesis
    by (simp add: norm_cdf_power_coeff_def)
qed

lemma norm_cdf_series_power:
  "(\<Sum>n. norm_cdf_power_coeff n * x ^ Suc n) = norm_cdf_series x"
proof -
  let ?h = "\<lambda>k. (- 1) ^ k * (norm_cdf_coeff k * x ^ (2 * k + 1))"
  have h: "?h sums norm_cdf_series x"
    unfolding norm_cdf_series_def by (rule summable_sums [OF norm_cdf_series_summable])
  have zero: "(\<lambda>n :: nat. 0 :: real) sums 0"
    by (rule sums_zero)
  have "(\<lambda>n. if even n then ?h (n div 2) else 0) sums (0 + norm_cdf_series x)"
    by (rule sums_if [OF zero h])
  then have "(\<lambda>n. norm_cdf_power_coeff n * x ^ Suc n) sums norm_cdf_series x"
    unfolding norm_cdf_power_term by simp
  then show ?thesis
    by (rule sums_unique [symmetric])
qed

lemma norm_cdf_series_deriv:
  "DERIV norm_cdf_series x :> exp (- (x\<^sup>2 / 2))"
proof -
  have "DERIV (\<lambda>x. \<Sum>n. norm_cdf_power_coeff n * x ^ Suc n) x
          :> (\<Sum>n. norm_cdf_power_coeff n * real (Suc n) * x ^ n)"
  proof (rule DERIV_power_series')
    show "summable (\<lambda>n. norm_cdf_power_coeff n * real (Suc n) * y ^ n)" for y
      using density_series [of y] by (rule sums_summable)
    show "x \<in> {- (\<bar>x\<bar> + 1)<..<\<bar>x\<bar> + 1}"
      by auto
    show "0 < \<bar>x\<bar> + 1"
      by simp
  qed
  moreover have "(\<Sum>n. norm_cdf_power_coeff n * real (Suc n) * x ^ n) = exp (- (x\<^sup>2 / 2))"
    using density_series [of x] by (rule sums_unique [symmetric])
  moreover have "(\<lambda>x. \<Sum>n. norm_cdf_power_coeff n * x ^ Suc n) = norm_cdf_series"
    by (rule ext) (rule norm_cdf_series_power)
  ultimately show ?thesis
    by (simp only:)
qed

lemma norm_cdf_deriv:
  "DERIV norm_cdf x :> exp (- (x\<^sup>2 / 2)) / sqrt (2 * pi)"
proof -
  have "DERIV (\<lambda>x. 1 / 2 + 1 / sqrt (2 * pi) * norm_cdf_series x) x
          :> 0 + 1 / sqrt (2 * pi) * exp (- (x\<^sup>2 / 2))"
    by (intro DERIV_add DERIV_const DERIV_cmult norm_cdf_series_deriv)
  moreover have "(\<lambda>x. 1 / 2 + 1 / sqrt (2 * pi) * norm_cdf_series x) = norm_cdf"
    by (rule ext) (simp only: norm_cdf_def)
  ultimately show ?thesis
    by simp
qed

lemma norm_cdf_0: "norm_cdf 0 = 1 / 2"
  by (simp add: norm_cdf_def norm_cdf_series_def)

section \<open>The claims about the aggregator\<close>

text \<open>
  C7. The absolute pricing error of the summary row is the absolute value of the
  difference between the simulated and the analytical price, and the relative error
  percentage is that absolute error divided by the analytical price, times 100.
\<close>

theorem pricing_error_formulas:
  "pricing_error (results_summary mc_results matrix_results)
       = lift1 abs (lift2 (-) (option_price mc_results) (Some analytical_price))
   \<and> error_percentage (results_summary mc_results matrix_results)
       = lift2 (*) (lift2 (/) (pricing_error (results_summary mc_results matrix_results))
            (Some analytical_price)) (Some 100)
   \<and> analytical_bs_price (results_summary mc_results matrix_results) = analytical_price
   \<and> analytical_price \<noteq> 0
   \<and> (\<forall>p. option_price mc_results = Some p \<longrightarrow>
         pricing_error (results_summary mc_results matrix_results) = Some \<bar>p - analytical_price\<bar>
       \<and> error_percentage (results_summary mc_results matrix_results)
           = Some (\<bar>p - analytical_price\<bar> / analytical_price * 100))"
  using analytical_price_bounds(1)
  by (simp add: results_summary_def Let_def lift1_def lift2_def)

theorem pricing_error_formulas_witness:
  "pricing_error (results_summary
       \<lparr>option_price = Some 8, std_error = Some 0, confidence_interval_95 = Some 0,
        simulations = 2, terminal_prices = []\<rparr>
       \<lparr>matrix_size = 5000, max_eigenvalue = 0\<rparr>) = Some \<bar>8 - analytical_price\<bar>
   \<and> error_percentage (results_summary
       \<lparr>option_price = Some 8, std_error = Some 0, confidence_interval_95 = Some 0,
        simulations = 2, terminal_prices = []\<rparr>
       \<lparr>matrix_size = 5000, max_eigenvalue = 0\<rparr>) = Some (\<bar>8 - analytical_price\<bar> / analytical_price * 100)"
proof -
  let ?mc = "\<lparr>option_price = Some 8, std_error = Some 0, confidence_interval_95 = Some 0,
        simulations = 2, terminal_prices = []\<rparr>"
  have price: "option_price ?mc = Some 8"
    by simp
  from pricing_error_formulas [of ?mc "\<lparr>matrix_size = 5000, max_eigenvalue = 0\<rparr>"] price
  show ?thesis by blast
qed

text \<open>
  C2. The analytical price of the aggregator is the Black-Scholes closed form
  \<open>S0 * Phi d1 - K * exp (- r * T) * Phi d2\<close> with
  \<open>d1 = (ln (S0 / K) + (r + 0.5 * sigma\<^sup>2) * T) / (sigma * sqrt T)\<close> and
  \<open>d2 = d1 - sigma * sqrt T\<close>, where \<open>Phi\<close> is the standard normal distribution
  function, at \<open>S0 = 100\<close>, \<open>K = 105\<close>, \<open>T = 1\<close>, \<open>r = 0.05\<close>, \<open>sigma = 0.2\<close>; and its
  value lies within 0.001 of 8.0214.
\<close>

theorem analytical_price_black_scholes:
  "analytical_price = black_scholes_call norm_cdf 100 105 1 0.05 0.2
   \<and> bs_d1 100 105 1 0.05 0.2 = (ln (100 / 105) + (0.05 + 0.5 * 0.2\<^sup>2) * 1) / (0.2 * sqrt 1)
   \<and> bs_d2 100 105 1 0.05 0.2 = bs_d1 100 105 1 0.05 0.2 - 0.2 * sqrt 1
   \<and> \<bar>analytical_price - 8.0214\<bar> \<le> 0.001"
proof -
  have "analytical_price = black_scholes_call norm_cdf 100 105 1 0.05 0.2"
    by (simp add: analytical_price_def black_scholes_call_def bs_d1_def bs_d2_def Let_def)
  moreover have "\<bar>analytical_price - 8.0214\<bar> \<le> 0.001"
  proof -
    have "analytical_price - 80214 / 10000 \<le> 1 / 1000"
      using analytical_price_bounds(2) by linarith
    moreover have "- (analytical_price - 80214 / 10000) \<le> 1 / 1000"
      using analytical_price_bounds(1) by linarith
    ultimately have "\<bar>analytical_price - 80214 / 10000\<bar> \<le> 1 / 1000"
      by (rule abs_leI)
    then show ?thesis
      by simp
  qed
  ultimately show ?thesis
    by (simp add: bs_d1_def bs_d2_def)
qed

section \<open>Order statistics\<close>

lemma interpolate_between:
  assumes "sorted s" and "s \<noteq> []" and "0 \<le> pos" and "pos \<le> real (length s - 1)"
  shows "nat \<lfloor>pos\<rfloor> \<le> length s - 1"
    and "s ! nat \<lfloor>pos\<rfloor> \<le> interpolate_sorted s pos"
    and "interpolate_sorted s pos \<le> s ! min (nat \<lfloor>pos\<rfloor> + 1) (length s - 1)"
proof -
  let ?lo = "nat \<lfloor>pos\<rfloor>"
  let ?hi = "min (?lo + 1) (length s - 1)"
  let ?g = "pos - real ?lo"
  have lo_le: "real ?lo \<le> pos"
    using assms(3) by (simp add: of_nat_nat)
  have lo_gt: "pos < real ?lo + 1"
    using assms(3) by (simp add: of_nat_nat)
  have "\<lfloor>pos\<rfloor> \<le> int (length s - 1)"
    using assms(4) by (simp add: floor_le_iff) 
  then show lo: "?lo \<le> length s - 1"
    by simp
  have hi: "?hi < length s"
    using assms(2) by (cases s) simp_all
  have "?lo \<le> ?hi"
    using lo by simp
  then have mono: "s ! ?lo \<le> s ! ?hi"
    by (rule sorted_nth_mono [OF assms(1) _ hi])
  have g: "0 \<le> ?g" "?g \<le> 1"
    using lo_le lo_gt by linarith+
  have val: "interpolate_sorted s pos = s ! ?lo + (s ! ?hi - s ! ?lo) * ?g"
    by (simp add: interpolate_sorted_def Let_def)
  show "s ! ?lo \<le> interpolate_sorted s pos"
    unfolding val using mono g by simp
  have "(s ! ?hi - s ! ?lo) * ?g \<le> (s ! ?hi - s ! ?lo) * 1"
    using mono g by (intro mult_left_mono) simp_all
  then show "interpolate_sorted s pos \<le> s ! ?hi"
    unfolding val by simp
qed

lemma interpolate_mono:
  assumes "sorted s" and "s \<noteq> []" and "0 \<le> p" and "p \<le> q" and "q \<le> real (length s - 1)"
  shows "interpolate_sorted s p \<le> interpolate_sorted s q"
proof -
  let ?lo = "\<lambda>x. nat \<lfloor>x\<rfloor>"
  let ?hi = "\<lambda>x. min (?lo x + 1) (length s - 1)"
  have p_ok: "p \<le> real (length s - 1)" and q_ok: "0 \<le> q"
    using assms by simp_all
  note P = interpolate_between [OF assms(1,2,3) p_ok]
  note Q = interpolate_between [OF assms(1,2) q_ok assms(5)]
  have lo_le: "?lo p \<le> ?lo q"
    using assms(4) by (intro nat_mono floor_mono)
  show ?thesis
  proof (cases "?lo p = ?lo q")
    case True
    have hi: "?hi q < length s"
      using assms(2) by (cases s) simp_all
    have "?lo q \<le> ?hi q"
      using Q(1) by simp
    then have mono: "s ! ?lo q \<le> s ! ?hi q"
      by (rule sorted_nth_mono [OF assms(1) _ hi])
    have "(s ! ?hi q - s ! ?lo q) * (p - real (?lo q)) \<le> (s ! ?hi q - s ! ?lo q) * (q - real (?lo q))"
      using mono assms(4) by (intro mult_left_mono) simp_all
    then show ?thesis
      using True by (simp add: interpolate_sorted_def Let_def)
  next
    case False
    with lo_le have less: "?lo p + 1 \<le> ?lo q"
      by simp
    then have "?hi p \<le> ?lo q"
      by simp
    moreover have "?lo q < length s"
      using Q(1) assms(2) by (cases s) simp_all
    ultimately have "s ! ?hi p \<le> s ! ?lo q"
      by (intro sorted_nth_mono [OF assms(1)])
    with P(3) Q(2) show ?thesis
      by linarith
  qed
qed

lemma interpolate_bounds:
  assumes "sorted s" and "s \<noteq> []" and "0 \<le> pos" and "pos \<le> real (length s - 1)"
  shows "s ! 0 \<le> interpolate_sorted s pos" and "interpolate_sorted s pos \<le> s ! (length s - 1)"
proof -
  note B = interpolate_between [OF assms]
  have len: "length s - 1 < length s"
    using assms(2) by (cases s) simp_all
  have "s ! 0 \<le> s ! nat \<lfloor>pos\<rfloor>"
    by (rule sorted_nth_mono [OF assms(1)]) (use B(1) len in simp_all)
  with B(2) show "s ! 0 \<le> interpolate_sorted s pos"
    by linarith
  have "s ! min (nat \<lfloor>pos\<rfloor> + 1) (length s - 1) \<le> s ! (length s - 1)"
    by (rule sorted_nth_mono [OF assms(1) _ len]) simp
  with B(3) show "interpolate_sorted s pos \<le> s ! (length s - 1)"
    by linarith
qed

lemma median_is_percentile_50:
  assumes "s \<noteq> []"
  shows "median_sorted s = percentile_sorted s 50"
proof (cases "odd (length s)")
  case True
  then obtain k where k: "length s = 2 * k + 1"
    by (auto elim: oddE)
  have pos: "real (length s - 1) * (50 / 100) = real k"
    using k by simp
  show ?thesis
    unfolding percentile_sorted_def pos
    using True k by (simp add: median_sorted_def interpolate_sorted_def Let_def)
next
  case False
  then obtain k where k: "length s = 2 * k"
    by (auto elim: evenE)
  with assms have k1: "1 \<le> k"
    by (cases k) simp_all
  then obtain k' where k': "k = Suc k'"
    by (cases k) simp_all
  have pos: "real (length s - 1) * (50 / 100) = real k' + 1 / 2"
    using k k' by simp
  have fl: "\<lfloor>real k' + 1 / 2\<rfloor> = int k'"
    by (simp add: floor_eq_iff)
  have hi: "min (k' + 1) (length s - 1) = Suc k'"
    using k k' by simp
  have "interpolate_sorted s (real k' + 1 / 2) = s ! k' + (s ! Suc k' - s ! k') * (1 / 2)"
    unfolding interpolate_sorted_def Let_def fl nat_int hi by simp
  also have "\<dots> = (s ! k' + s ! Suc k') / 2"
    by (simp add: field_simps)
  also have "\<dots> = median_sorted s"
    using False k k' by (simp add: median_sorted_def Let_def)
  finally show ?thesis
    unfolding percentile_sorted_def pos ..
qed

lemma sorted_Min_nth: "sorted s \<Longrightarrow> s \<noteq> [] \<Longrightarrow> Min (set s) = s ! 0" for s :: "real list"
  by (cases s) (auto intro!: Min_eqI)

lemma sorted_Max_nth:
  fixes s :: "real list"
  assumes "sorted s" and "s \<noteq> []"
  shows "Max (set s) = s ! (length s - 1)"
proof (rule Max_eqI)
  show "finite (set s)" by simp
  have "length s - 1 < length s"
    using assms(2) by (cases s) simp_all
  then show "s ! (length s - 1) \<in> set s"
    by (rule nth_mem)
  fix y assume "y \<in> set s"
  then obtain i where "i < length s" and "s ! i = y"
    by (auto simp add: in_set_conv_nth)
  then show "y \<le> s ! (length s - 1)"
    using sorted_nth_mono [OF assms(1), of i "length s - 1"] by auto
qed

lemma sum_list_lower: "\<forall>x\<in>set xs. a \<le> x \<Longrightarrow> a * real (length xs) \<le> sum_list xs"
  for a :: real
  by (induction xs) (simp_all add: algebra_simps add_mono)

lemma sum_list_upper: "\<forall>x\<in>set xs. x \<le> b \<Longrightarrow> sum_list xs \<le> b * real (length xs)"
  for b :: real
  by (induction xs) (simp_all add: algebra_simps add_mono)

lemma mean_between:
  fixes xs :: "real list"
  assumes "xs \<noteq> []"
  shows "Min (set xs) \<le> sum_list xs / real (length xs)"
    and "sum_list xs / real (length xs) \<le> Max (set xs)"
proof -
  have n: "0 < real (length xs)"
    using assms by simp
  have "Min (set xs) * real (length xs) \<le> sum_list xs"
    by (rule sum_list_lower) simp
  then show "Min (set xs) \<le> sum_list xs / real (length xs)"
    using n by (simp add: pos_le_divide_eq)
  have "sum_list xs \<le> Max (set xs) * real (length xs)"
    by (rule sum_list_upper) simp
  then show "sum_list xs / real (length xs) \<le> Max (set xs)"
    using n by (simp add: pos_divide_le_eq)
qed

lemma terminal_stats_numbers:
  assumes "prices \<noteq> []"
  shows "terminal_stats (map Some prices) =
     Inr \<lparr>ts_mean = Some (sum_list prices / real (length prices)),
          ts_median = Some (median_sorted (sort prices)),
          ts_std = np_std (map Some prices),
          ts_min = Some (Min (set prices)),
          ts_max = Some (Max (set prices)),
          ts_percentile_25 = Some (percentile_sorted (sort prices) 25),
          ts_percentile_75 = Some (percentile_sorted (sort prices) 75),
          ts_percentile_95 = Some (percentile_sorted (sort prices) 95)\<rparr>"
  using assms
  by (simp add: terminal_stats_def np_min_def np_max_def np_mean_def np_median_def
      np_percentile_def those_map_Some)

lemma percentile_mono:
  assumes "sorted s" and "s \<noteq> []" and "0 \<le> p" and "p \<le> q" and "q \<le> 100"
  shows "percentile_sorted s p \<le> percentile_sorted s q"
  unfolding percentile_sorted_def
proof (rule interpolate_mono [OF assms(1,2)])
  show "0 \<le> real (length s - 1) * (p / 100)"
    using assms(3) by simp
  show "real (length s - 1) * (p / 100) \<le> real (length s - 1) * (q / 100)"
    using assms(4) by (intro mult_left_mono) simp_all
  have "real (length s - 1) * (q / 100) \<le> real (length s - 1) * 1"
    using assms(5) by (intro mult_left_mono) simp_all
  then show "real (length s - 1) * (q / 100) \<le> real (length s - 1)"
    by simp
qed

lemma percentile_bounds:
  assumes "sorted s" and "s \<noteq> []" and "0 \<le> q" and "q \<le> 100"
  shows "s ! 0 \<le> percentile_sorted s q" and "percentile_sorted s q \<le> s ! (length s - 1)"
proof -
  have lo: "0 \<le> real (length s - 1) * (q / 100)"
    using assms(3) by simp
  have "real (length s - 1) * (q / 100) \<le> real (length s - 1) * 1"
    using assms(4) by (intro mult_left_mono) simp_all
  then have hi: "real (length s - 1) * (q / 100) \<le> real (length s - 1)"
    by simp
  show "s ! 0 \<le> percentile_sorted s q" and "percentile_sorted s q \<le> s ! (length s - 1)"
    unfolding percentile_sorted_def
    by (rule interpolate_bounds [OF assms(1,2) lo hi])+
qed

lemma terminal_stats_example:
  "terminal_stats [Some 3, Some 1, Some 2, Some 4] =
     Inr \<lparr>ts_mean = Some (5 / 2), ts_median = Some (5 / 2), ts_std = Some (sqrt (5 / 4)),
          ts_min = Some 1, ts_max = Some 4,
          ts_percentile_25 = Some (7 / 4), ts_percentile_75 = Some (13 / 4),
          ts_percentile_95 = Some (77 / 20)\<rparr>"
  by (simp add: terminal_stats_def np_min_def np_max_def np_mean_def np_median_def np_std_def
      np_percentile_def median_sorted_def percentile_sorted_def interpolate_sorted_def Let_def
      power2_eq_square)

section \<open>The whole run\<close>

lemma benchmark_returns:
  assumes "eigvals (leading 1000 1000 (dot (randn rngA 5000 5000) (randn rngB 5000 5000))) \<noteq> []"
  shows "matrix_computation_benchmark rngA rngB eigvals
      = Inr \<lparr>matrix_size = 5000,
              max_eigenvalue = Max (set (map cmod
                (eigvals (leading 1000 1000 (dot (randn rngA 5000 5000) (randn rngB 5000 5000))))))\<rparr>"
  unfolding matrix_computation_benchmark_def Let_def using assms by simp

text \<open>
  With the constants of the module \<^verbatim>\<open>main\<close> returns its two rows: the simulator runs
  on valid parameters, the terminal prices are numbers and there are ten million of
  them, and the eigenvalue routine is handed a 1000 by 1000 matrix.
\<close>

lemma main_returns:
  assumes "\<And>M. length (eigvals M) = length M"
  shows "\<exists>mc_results matrix_results stats.
       monte_carlo_option_pricing rng 100 105 1 0.05 0.2 SIMULATIONS TIME_STEPS = Inr mc_results
     \<and> matrix_computation_benchmark rngA rngB eigvals = Inr matrix_results
     \<and> terminal_stats (terminal_prices mc_results) = Inr stats
     \<and> main rng rngA rngB eigvals = Inr (results_summary mc_results matrix_results, stats)"
proof -
  let ?price = "terminal_price_closed_form rng 100 1 0.05 0.2 TIME_STEPS"
  let ?prices = "map ?price [0..<nat SIMULATIONS]"
  obtain mc where mc: "monte_carlo_option_pricing rng 100 105 1 0.05 0.2 SIMULATIONS TIME_STEPS = Inr mc"
    and ST: "terminal_prices mc = map (\<lambda>j. Some (?price j)) [0..<nat SIMULATIONS]"
    using mc_run_numbers [of TIME_STEPS SIMULATIONS 1 rng 100 105 "0.05" "0.2"]
    by (simp add: SIMULATIONS_def TIME_STEPS_def)
  have "[0..<nat SIMULATIONS] \<noteq> []"
    by (simp add: SIMULATIONS_def)
  then have ne: "?prices \<noteq> []"
    by simp
  have "terminal_prices mc = map Some ?prices"
    unfolding ST by simp
  then obtain stats where stats: "terminal_stats (terminal_prices mc) = Inr stats"
    using terminal_stats_numbers [OF ne] by simp
  let ?sub = "leading 1000 1000 (dot (randn rngA 5000 5000) (randn rngB 5000 5000))"
  have "length ?sub = 1000"
    by (rule leading_dot_randn(1)) simp_all
  then have "length (eigvals ?sub) = 1000"
    using assms by simp
  then have "eigvals ?sub \<noteq> []"
    by auto
  then obtain mx where mx: "matrix_computation_benchmark rngA rngB eigvals = Inr mx"
    using benchmark_returns by blast
  have "main rng rngA rngB eigvals = Inr (results_summary mc mx, stats)"
    unfolding main_def mc mx by (simp add: stats)
  with mc mx stats show ?thesis
    by blast
qed

end
